theory Spec2Isabelle
  imports Complex_Main "HOL-Library.Word"
begin

section \<open>Geometry: image.Point and image.Rectangle\<close>

text \<open>
  Go's \<open>int\<close> coordinates are modelled as unbounded \<open>int\<close>: screen coordinates stay far
  below \<open>2^63\<close>. \<open>image.Point\<close> and \<open>image.Rectangle\<close> belong to Go's standard library;
  \<open>Empty\<close>, \<open>Dx\<close>, \<open>Dy\<close> and \<open>Intersect\<close> follow the library's definitions.
\<close>

record Point =
  X :: int
  Y :: int

record Rectangle =
  Min_pt :: Point
  Max_pt :: Point

definition Dx :: "Rectangle \<Rightarrow> int" where
  "Dx r = X (Max_pt r) - X (Min_pt r)"

definition Dy :: "Rectangle \<Rightarrow> int" where
  "Dy r = Y (Max_pt r) - Y (Min_pt r)"

definition Empty :: "Rectangle \<Rightarrow> bool" where
  "Empty r = (X (Min_pt r) \<ge> X (Max_pt r) \<or> Y (Min_pt r) \<ge> Y (Max_pt r))"

definition ZR :: Rectangle where
  "ZR = \<lparr>Min_pt = \<lparr>X = 0, Y = 0\<rparr>, Max_pt = \<lparr>X = 0, Y = 0\<rparr>\<rparr>"

definition Intersect :: "Rectangle \<Rightarrow> Rectangle \<Rightarrow> Rectangle" where
  "Intersect r s =
     (let r' = \<lparr>Min_pt = \<lparr>X = max (X (Min_pt r)) (X (Min_pt s)), Y = max (Y (Min_pt r)) (Y (Min_pt s))\<rparr>,
                Max_pt = \<lparr>X = min (X (Max_pt r)) (X (Max_pt s)), Y = min (Y (Max_pt r)) (Y (Max_pt s))\<rparr>\<rparr>
      in if Empty r' then ZR else r')"

section \<open>Colours and images\<close>

text \<open>
  \<open>color.Color.RGBA()\<close> returns four \<open>uint32\<close> values; an \<open>image.Image\<close> offers
  \<open>Bounds()\<close> and \<open>At(x, y)\<close>. Every image the program handles (a decoded PNG, a screen
  capture) has a well-formed bounding rectangle, so an image is stored as the corner
  \<open>Bounds().Min\<close> plus a non-negative width and height, and \<open>Bounds\<close> is derived.
  \<open>At\<close> is total, as the interface's method is: what it returns outside the bounds is
  up to the image.
\<close>

type_synonym uint32 = "32 word"

type_synonym rgba = "uint32 \<times> uint32 \<times> uint32 \<times> uint32"

record image =
  origin :: Point
  width :: nat
  height :: nat
  At :: "int \<Rightarrow> int \<Rightarrow> rgba"

definition Bounds :: "image \<Rightarrow> Rectangle" where
  "Bounds img = \<lparr>Min_pt = origin img,
                 Max_pt = \<lparr>X = X (origin img) + int (width img), Y = Y (origin img) + int (height img)\<rparr>\<rparr>"

text \<open>The closure \<open>getRgbAndAlpha\<close>: the four components scaled to 0..255 by \<open>>> 8\<close>.\<close>

definition getRgbAndAlpha :: "image \<Rightarrow> int \<Rightarrow> int \<Rightarrow> rgba" where
  "getRgbAndAlpha img x y =
     (case At img x y of (r, g, b, a) \<Rightarrow> (drop_bit 8 r, drop_bit 8 g, drop_bit 8 b, drop_bit 8 a))"

text \<open>
  \<open>float64\<close>. A finite \<open>float64\<close> value is modelled by the real number it denotes, and an
  operation by the exact result rounded as IEEE 754 prescribes: to the nearest \<open>float64\<close>,
  a tie going to the neighbour whose significand is even. \<open>roundHalfEven\<close> is that rounding
  to an integer. A positive \<open>x\<close> with \<open>2^e \<le> x < 2^(e+1)\<close> has \<open>float64\<close> neighbours spaced
  \<open>2^(e-52)\<close> apart (a significand of 53 bits); \<open>ulp64 x\<close> is that spacing and
  \<open>roundFloat64 x\<close> the nearest multiple of it. The model covers the normal range of
  \<open>float64\<close> (no overflow, no subnormal numbers) and 0, which contains the square root of
  every \<open>uint32\<close>; infinities and NaN are not modelled.

  \<open>math.Sqrt\<close> is correctly rounded: it returns the \<open>float64\<close> nearest to the exact square
  root.
\<close>

definition roundHalfEven :: "real \<Rightarrow> int" where
  "roundHalfEven x =
     (let f = \<lfloor>x\<rfloor>; d = x - of_int f
      in if d < 1 / 2 then f else if 1 / 2 < d then f + 1 else if even f then f else f + 1)"

definition ulp64 :: "real \<Rightarrow> real" where
  "ulp64 x = 2 powr (of_int \<lfloor>log 2 x\<rfloor> - 52)"

definition roundFloat64 :: "real \<Rightarrow> real" where
  "roundFloat64 x = (if x \<le> 0 then 0 else of_int (roundHalfEven (x / ulp64 x)) * ulp64 x)"

definition math_Sqrt :: "real \<Rightarrow> real" where
  "math_Sqrt x = roundFloat64 (sqrt x)"

text \<open>
  \<open>colorSimilar\<close>: the differences, squares and sum are \<open>uint32\<close> operations and wrap
  modulo \<open>2^32\<close>. The sum is then converted to \<open>float64\<close>, which is exact for every
  \<open>uint32\<close>, and \<open>math.Sqrt\<close> of it is compared with the tolerance, a finite \<open>float64\<close>.
\<close>

definition colorSimilar :: "uint32 \<Rightarrow> uint32 \<Rightarrow> uint32 \<Rightarrow> uint32 \<Rightarrow> uint32 \<Rightarrow> uint32 \<Rightarrow> real \<Rightarrow> bool" where
  "colorSimilar r1 g1 b1 r2 g2 b2 tolerance =
     (let diff = math_Sqrt (real (unat ((r1 - r2) * (r1 - r2) + (g1 - g2) * (g1 - g2) + (b1 - b2) * (b1 - b2))))
      in diff \<le> tolerance)"

section \<open>The matcher with alpha handling (unnamed/part_005)\<close>

text \<open>
  \<open>match\<close>: the two nested loops over the template's pixels, leaving with \<open>false\<close> at the
  first opaque pixel that is not similar; a pixel whose scaled alpha is 0 is skipped.
\<close>

definition pixelOk :: "image \<Rightarrow> image \<Rightarrow> int \<Rightarrow> int \<Rightarrow> real \<Rightarrow> int \<Rightarrow> int \<Rightarrow> bool" where
  "pixelOk screenImg templateImg sx sy tolerance tx ty =
     (case getRgbAndAlpha templateImg (X (Min_pt (Bounds templateImg)) + tx) (Y (Min_pt (Bounds templateImg)) + ty) of
        (tr, tg, tb, ta) \<Rightarrow>
          if ta = 0 then True
          else (case getRgbAndAlpha screenImg (sx + tx) (sy + ty) of
                  (sr, sg, sb, sa) \<Rightarrow> colorSimilar sr sg sb tr tg tb tolerance))"

definition match :: "image \<Rightarrow> image \<Rightarrow> int \<Rightarrow> int \<Rightarrow> real \<Rightarrow> bool" where
  "match screenImg templateImg sx sy tolerance =
     list_all (\<lambda>ty. list_all (\<lambda>tx. pixelOk screenImg templateImg sx sy tolerance (int tx) (int ty))
                                [0..<nat (Dx (Bounds templateImg))])
              [0..<nat (Dy (Bounds templateImg))]"

text \<open>
  The body of the inner scanning loop: the three quick checks (top-left, centre,
  bottom-right; each only when that template pixel is opaque), then the full check.
  \<open>quickCheck\<close> is one of the three \<open>if ta > 0 { ... continue }\<close> blocks, for the template
  pixel at offset \<open>(dx, dy)\<close>.
\<close>

definition quickCheck :: "image \<Rightarrow> image \<Rightarrow> real \<Rightarrow> int \<Rightarrow> int \<Rightarrow> int \<Rightarrow> int \<Rightarrow> bool" where
  "quickCheck screenImg templateImg tolerance x y dx dy =
     (case getRgbAndAlpha templateImg (X (Min_pt (Bounds templateImg)) + dx) (Y (Min_pt (Bounds templateImg)) + dy) of
        (tr, tg, tb, ta) \<Rightarrow>
          if ta > 0 then
            (case getRgbAndAlpha screenImg (x + dx) (y + dy) of
               (sr, sg, sb, sa) \<Rightarrow> colorSimilar sr sg sb tr tg tb tolerance)
          else True)"

definition hitAt :: "image \<Rightarrow> image \<Rightarrow> real \<Rightarrow> int \<Rightarrow> int \<Rightarrow> bool" where
  "hitAt screenImg templateImg tolerance x y =
     (let tWidth = Dx (Bounds templateImg); tHeight = Dy (Bounds templateImg)
      in quickCheck screenImg templateImg tolerance x y 0 0
         \<and> quickCheck screenImg templateImg tolerance x y (tWidth div 2) (tHeight div 2)
         \<and> quickCheck screenImg templateImg tolerance x y (tWidth - 1) (tHeight - 1)
         \<and> match screenImg templateImg x y tolerance)"

text \<open>
  The scanning loops, shared by \<open>FindAllTemplates\<close> (over the screen's bounds) and
  \<open>FindAllTemplatesInROI\<close> (over the clamped region), whose loop texts are the same.
  \<open>scanRow\<close> is the loop over \<open>x\<close>: after a match the cursor moves on by
  \<open>tWidth / 2\<close> before the loop's own \<open>x++\<close>. \<open>scanRows\<close> is the loop over \<open>y\<close>.
\<close>

function scanRow :: "image \<Rightarrow> image \<Rightarrow> real \<Rightarrow> Rectangle \<Rightarrow> int \<Rightarrow> int \<Rightarrow> Point list" where
  "scanRow screenImg templateImg tolerance area y x =
     (if x \<le> X (Max_pt area) - Dx (Bounds templateImg) then
        (if hitAt screenImg templateImg tolerance x y
         then \<lparr>X = x, Y = y\<rparr> # scanRow screenImg templateImg tolerance area y (x + Dx (Bounds templateImg) div 2 + 1)
         else scanRow screenImg templateImg tolerance area y (x + 1))
      else [])"
  by pat_completeness auto
termination
  by (relation "measure (\<lambda>(s, t, tol, area, y, x). nat (X (Max_pt area) - Dx (Bounds t) + 1 - x))")
     (auto simp: Dx_def Bounds_def)

function scanRows :: "image \<Rightarrow> image \<Rightarrow> real \<Rightarrow> Rectangle \<Rightarrow> int \<Rightarrow> Point list" where
  "scanRows screenImg templateImg tolerance area y =
     (if y \<le> Y (Max_pt area) - Dy (Bounds templateImg) then
        scanRow screenImg templateImg tolerance area y (X (Min_pt area))
          @ scanRows screenImg templateImg tolerance area (y + 1)
      else [])"
  by pat_completeness auto
termination
  by (relation "measure (\<lambda>(s, t, tol, area, y). nat (Y (Max_pt area) - Dy (Bounds t) + 1 - y))") auto

declare scanRow.simps [simp del]
declare scanRows.simps [simp del]

definition FindAllTemplates :: "image \<Rightarrow> image \<Rightarrow> real \<Rightarrow> Point list" where
  "FindAllTemplates screenImg templateImg tolerance =
     scanRows screenImg templateImg tolerance (Bounds screenImg) (Y (Min_pt (Bounds screenImg)))"

text \<open>\<open>FindTemplate\<close>, the wrapper: the first match, or \<open>(0, 0, false)\<close>.\<close>

definition FindTemplate :: "image \<Rightarrow> image \<Rightarrow> real \<Rightarrow> int \<times> int \<times> bool" where
  "FindTemplate screenImg templateImg tolerance =
     (case FindAllTemplates screenImg templateImg tolerance of
        m # ms \<Rightarrow> (X m, Y m, True)
      | [] \<Rightarrow> (0, 0, False))"

text \<open>
  \<open>FindAllTemplatesInROI\<close>: the full search for an empty region; no match when the region
  clamped to the screen is empty or too small for the template.
\<close>

definition FindAllTemplatesInROI :: "image \<Rightarrow> image \<Rightarrow> Rectangle \<Rightarrow> real \<Rightarrow> Point list" where
  "FindAllTemplatesInROI screenImg templateImg roi tolerance =
     (if Empty roi then FindAllTemplates screenImg templateImg tolerance
      else
        let sBounds = Bounds screenImg;
            tBounds = Bounds templateImg;
            tWidth = Dx tBounds; tHeight = Dy tBounds;
            searchArea = Intersect roi sBounds
        in if Empty searchArea then []
           else if Dx searchArea < tWidth \<or> Dy searchArea < tHeight then []
           else scanRows screenImg templateImg tolerance searchArea (Y (Min_pt searchArea)))"

section \<open>The earlier matcher (internal/engine/screen/vision.go)\<close>

text \<open>
  The earlier \<open>FindTemplate\<close> does not look at alpha: \<open>getRgb\<close> drops it, the only quick
  check is the template's first pixel, and the search returns at the first match. The size
  guard at its start is kept. \<open>colorSimilar\<close> is the same function in both files.
  \<open>findRow_old\<close> and \<open>findRows_old\<close> are the loops over \<open>x\<close> and \<open>y\<close>; \<open>None\<close> is a loop
  that ends without returning.
\<close>

definition getRgb :: "image \<Rightarrow> int \<Rightarrow> int \<Rightarrow> uint32 \<times> uint32 \<times> uint32" where
  "getRgb img x y = (case At img x y of (r, g, b, a) \<Rightarrow> (drop_bit 8 r, drop_bit 8 g, drop_bit 8 b))"

definition pixelOk_old :: "image \<Rightarrow> image \<Rightarrow> int \<Rightarrow> int \<Rightarrow> real \<Rightarrow> int \<Rightarrow> int \<Rightarrow> bool" where
  "pixelOk_old screenImg templateImg sx sy tolerance tx ty =
     (case getRgb templateImg (X (Min_pt (Bounds templateImg)) + tx) (Y (Min_pt (Bounds templateImg)) + ty) of
        (tr, tg, tb) \<Rightarrow>
          (case getRgb screenImg (sx + tx) (sy + ty) of
             (sr, sg, sb) \<Rightarrow> colorSimilar sr sg sb tr tg tb tolerance))"

definition match_old :: "image \<Rightarrow> image \<Rightarrow> int \<Rightarrow> int \<Rightarrow> real \<Rightarrow> bool" where
  "match_old screenImg templateImg sx sy tolerance =
     list_all (\<lambda>ty. list_all (\<lambda>tx. pixelOk_old screenImg templateImg sx sy tolerance (int tx) (int ty))
                                [0..<nat (Dx (Bounds templateImg))])
              [0..<nat (Dy (Bounds templateImg))]"

definition hitAt_old :: "image \<Rightarrow> image \<Rightarrow> real \<Rightarrow> int \<Rightarrow> int \<Rightarrow> bool" where
  "hitAt_old screenImg templateImg tolerance x y =
     (pixelOk_old screenImg templateImg x y tolerance 0 0 \<and> match_old screenImg templateImg x y tolerance)"

function findRow_old :: "image \<Rightarrow> image \<Rightarrow> real \<Rightarrow> int \<Rightarrow> int \<Rightarrow> Point option" where
  "findRow_old screenImg templateImg tolerance y x =
     (if x \<le> X (Max_pt (Bounds screenImg)) - Dx (Bounds templateImg) then
        (if hitAt_old screenImg templateImg tolerance x y then Some \<lparr>X = x, Y = y\<rparr>
         else findRow_old screenImg templateImg tolerance y (x + 1))
      else None)"
  by pat_completeness auto
termination
  by (relation "measure (\<lambda>(s, t, tol, y, x). nat (X (Max_pt (Bounds s)) - Dx (Bounds t) + 1 - x))") auto

function findRows_old :: "image \<Rightarrow> image \<Rightarrow> real \<Rightarrow> int \<Rightarrow> Point option" where
  "findRows_old screenImg templateImg tolerance y =
     (if y \<le> Y (Max_pt (Bounds screenImg)) - Dy (Bounds templateImg) then
        (case findRow_old screenImg templateImg tolerance y (X (Min_pt (Bounds screenImg))) of
           Some p \<Rightarrow> Some p
         | None \<Rightarrow> findRows_old screenImg templateImg tolerance (y + 1))
      else None)"
  by pat_completeness auto
termination
  by (relation "measure (\<lambda>(s, t, tol, y). nat (Y (Max_pt (Bounds s)) - Dy (Bounds t) + 1 - y))") auto

declare findRow_old.simps [simp del]
declare findRows_old.simps [simp del]

definition FindTemplate_old :: "image \<Rightarrow> image \<Rightarrow> real \<Rightarrow> int \<times> int \<times> bool" where
  "FindTemplate_old screenImg templateImg tolerance =
     (let sBounds = Bounds screenImg; tBounds = Bounds templateImg;
          sWidth = Dx sBounds; sHeight = Dy sBounds;
          tWidth = Dx tBounds; tHeight = Dy tBounds
      in if sWidth < tWidth \<or> sHeight < tHeight then (0, 0, False)
         else (case findRows_old screenImg templateImg tolerance (Y (Min_pt sBounds)) of
                 Some p \<Rightarrow> (X p, Y p, True)
               | None \<Rightarrow> (0, 0, False)))"

section \<open>Notions the specification uses for the matcher\<close>





definition alphaAt :: "image \<Rightarrow> int \<Rightarrow> int \<Rightarrow> uint32" where
  "alphaAt img x y = (case getRgbAndAlpha img x y of (r, g, b, a) \<Rightarrow> a)"

definition opaque :: "image \<Rightarrow> bool" where
  "opaque img =
     (\<forall>ty \<in> set [0..<height img]. \<forall>tx \<in> set [0..<width img].
        alphaAt img (X (origin img) + int tx) (Y (origin img) + int ty) \<noteq> 0)"


section \<open>Concrete frames and templates\<close>

text \<open>
  Small images on which the definitions are evaluated. Outside their bounds they return the
  zero colour, as Go's \<open>image.RGBA\<close> and \<open>image.NRGBA\<close> do.
\<close>

definition blackPx :: rgba where
  "blackPx = (0, 0, 0, 0xFFFF)"

definition whitePx :: rgba where
  "whitePx = (0xFFFF, 0xFFFF, 0xFFFF, 0xFFFF)"

definition noPx :: rgba where
  "noPx = (0, 0, 0, 0)"

definition frameB :: image where
  "frameB = \<lparr>origin = \<lparr>X = 0, Y = 0\<rparr>, width = 3, height = 1,
             At = (\<lambda>x y. if 0 \<le> x \<and> x < 3 \<and> y = 0 then blackPx else noPx)\<rparr>"

definition tmplB :: image where
  "tmplB = \<lparr>origin = \<lparr>X = 0, Y = 0\<rparr>, width = 2, height = 1,
             At = (\<lambda>x y. if 0 \<le> x \<and> x < 2 \<and> y = 0 then blackPx else noPx)\<rparr>"

definition frameWB :: image where
  "frameWB = \<lparr>origin = \<lparr>X = 0, Y = 0\<rparr>, width = 2, height = 1,
              At = (\<lambda>x y. if x = 0 \<and> y = 0 then whitePx else if x = 1 \<and> y = 0 then blackPx else noPx)\<rparr>"

definition tmplEmpty :: image where
  "tmplEmpty = \<lparr>origin = \<lparr>X = 0, Y = 0\<rparr>, width = 0, height = 0, At = (\<lambda>x y. noPx)\<rparr>"

definition tmplClear :: image where
  "tmplClear = \<lparr>origin = \<lparr>X = 0, Y = 0\<rparr>, width = 2, height = 1,
               At = (\<lambda>x y. if x = 0 \<and> y = 0 then blackPx else noPx)\<rparr>"

definition tmplClearRed :: image where
  "tmplClearRed = \<lparr>origin = \<lparr>X = 0, Y = 0\<rparr>, width = 2, height = 1,
               At = (\<lambda>x y. if x = 0 \<and> y = 0 then blackPx else if x = 1 \<and> y = 0 then (0xFFFF, 0, 0, 0) else noPx)\<rparr>"

text \<open>
  \<open>sqrt3_f64\<close> is the \<open>float64\<close> nearest to the square root of 3 (\<open>math.Sqrt(3)\<close>), a
  little below the exact root. The pixel of \<open>frameGrey\<close> has the scaled colour \<open>(1, 1, 1)\<close>,
  at distance \<open>sqrt 3\<close> from the black pixel of \<open>tmplDot\<close>.
\<close>

definition sqrt3_f64 :: real where
  "sqrt3_f64 = 3900231685776981 / 2251799813685248"

definition greyPx :: rgba where
  "greyPx = (0x0100, 0x0100, 0x0100, 0xFFFF)"



definition roiFar :: Rectangle where
  "roiFar = \<lparr>Min_pt = \<lparr>X = 10, Y = 10\<rparr>, Max_pt = \<lparr>X = 20, Y = 20\<rparr>\<rparr>"

definition roiNarrow :: Rectangle where
  "roiNarrow = \<lparr>Min_pt = \<lparr>X = 0, Y = 0\<rparr>, Max_pt = \<lparr>X = 1, Y = 1\<rparr>\<rparr>"

section \<open>The entity tracker (app/global/entity.go)\<close>

text \<open>
  \<open>time.Time\<close> and \<open>time.Duration\<close> are integers (nanoseconds); \<open>time.Now()\<close> is an
  argument of the operation that reads the clock. Click counts start at 0 and are only
  incremented, so they are natural numbers, as is the click limit.
\<close>

record DetectedEntity =
  TemplateName :: string
  Priority :: int
  Position :: Point
  TemplateSize :: Point

record TrackedEntity =
  Entity :: DetectedEntity
  ClickCount :: nat
  LastSeen :: int
  FirstSeen :: int

record EntityTracker =
  entities :: "string \<rightharpoonup> TrackedEntity"
  blacklist :: "string \<rightharpoonup> int"
  maxClicks :: nat
  positionThresh :: int
  ttl :: int
  lastHighPriEntity :: "DetectedEntity option"
  roiMargin :: int

definition NewEntityTracker :: EntityTracker where
  "NewEntityTracker =
     \<lparr>entities = Map.empty, blacklist = Map.empty, maxClicks = 7, positionThresh = 20,
      ttl = 2 * 1000000000, lastHighPriEntity = None, roiMargin = 100\<rparr>"

text \<open>
  Go's integer division truncates towards zero (and panics on a zero divisor, which no
  tracker has: \<open>positionThresh\<close> is 20 in every tracker the program builds).
  \<open>Itoa\<close> is \<open>strconv.Itoa\<close>: the decimal digits, with a minus sign for a negative number.
\<close>

definition tdiv :: "int \<Rightarrow> int \<Rightarrow> int" where
  "tdiv a b = (if (a < 0) = (b < 0) then \<bar>a\<bar> div \<bar>b\<bar> else - (\<bar>a\<bar> div \<bar>b\<bar>))"

definition digitChar :: "nat \<Rightarrow> char" where
  "digitChar n = ''0123456789'' ! n"

function Itoa_nat :: "nat \<Rightarrow> string" where
  "Itoa_nat n = (if n < 10 then [digitChar n] else Itoa_nat (n div 10) @ [digitChar (n mod 10)])"
  by pat_completeness auto
termination
  by (relation "measure id") auto

declare Itoa_nat.simps [simp del]

definition Itoa :: "int \<Rightarrow> string" where
  "Itoa i = (if i < 0 then CHR ''-'' # Itoa_nat (nat (- i)) else Itoa_nat (nat i))"

definition entityKey :: "EntityTracker \<Rightarrow> DetectedEntity \<Rightarrow> string" where
  "entityKey t e =
     (let qx = tdiv (X (Position e)) (positionThresh t) * positionThresh t;
          qy = tdiv (Y (Position e)) (positionThresh t) * positionThresh t
      in Itoa (Priority e) @ ''_'' @ Itoa qx @ ''_'' @ Itoa qy)"

text \<open>
  \<open>findMovedEntity\<close> ranges over the map of entities; Go visits the keys of a map in an
  order of its own choosing, so the order is an argument: the list of keys as the loop
  visits them. \<open>isMovedMatch\<close> is the test of the loop's body on one tracked entity;
  the result \<open>''''\<close> means no match.
\<close>

definition isMovedMatch :: "EntityTracker \<Rightarrow> DetectedEntity \<Rightarrow> DetectedEntity \<Rightarrow> bool" where
  "isMovedMatch t e d =
     (let xDiff = \<bar>X (Position e) - X (Position d)\<bar>;
          yDiff = Y (Position e) - Y (Position d)
      in \<not> Priority e \<noteq> Priority d \<and> \<not> xDiff > 30
         \<and> ((yDiff > 0 \<and> yDiff \<le> 200) \<or> (yDiff < 0 \<and> - yDiff \<le> positionThresh t)))"

fun findMovedEntity :: "EntityTracker \<Rightarrow> DetectedEntity \<Rightarrow> string list \<Rightarrow> string" where
  "findMovedEntity t d [] = ''''"
| "findMovedEntity t d (key # keys) =
     (case entities t key of
        None \<Rightarrow> findMovedEntity t d keys
      | Some tracked \<Rightarrow>
          if isMovedMatch t (Entity tracked) d then key else findMovedEntity t d keys)"

text \<open>
  \<open>Update\<close>. \<open>reconcile1\<close> is the body of the first loop for one detection, on the tracker
  and the set \<open>seen\<close>; \<open>reconcile\<close> is the loop, where \<open>order i\<close> is the order in which
  \<open>findMovedEntity\<close> visits the map for the \<open>i\<close>-th detection. \<open>expire\<close> is the second
  loop, which deletes the entities that were not seen and are older than the TTL. The
  branch of \<open>reconcile1\<close> in which the matched key has no entity is never taken:
  \<open>findMovedEntity\<close> returns keys of the map only.
\<close>

definition reconcile1 ::
  "int \<Rightarrow> string list \<Rightarrow> DetectedEntity \<Rightarrow> EntityTracker \<times> string set \<Rightarrow> EntityTracker \<times> string set" where
  "reconcile1 now keyOrder d ts =
     (case ts of (t, seen0) \<Rightarrow>
        let key = entityKey t d; seen = insert key seen0 in
        case entities t key of
          Some existing \<Rightarrow>
            (t\<lparr>entities := (entities t)(key \<mapsto> existing\<lparr>LastSeen := now, Entity := d\<rparr>)\<rparr>, seen)
        | None \<Rightarrow>
            let matchedKey = findMovedEntity t d keyOrder in
            if matchedKey \<noteq> '''' then
              (case entities t matchedKey of
                 None \<Rightarrow> (t, seen)
               | Some oldEntity \<Rightarrow>
                   let t1 = t\<lparr>entities := (entities t)(key \<mapsto>
                              \<lparr>Entity = d, ClickCount = ClickCount oldEntity,
                               LastSeen = now, FirstSeen = FirstSeen oldEntity\<rparr>)\<rparr>;
                       t2 = (case blacklist t1 matchedKey of
                               Some stamp \<Rightarrow> t1\<lparr>blacklist := ((blacklist t1)(key \<mapsto> stamp))(matchedKey := None)\<rparr>
                             | None \<Rightarrow> t1)
                   in (t2\<lparr>entities := (entities t2)(matchedKey := None)\<rparr>, insert key seen))
            else
              (t\<lparr>entities := (entities t)(key \<mapsto>
                    \<lparr>Entity = d, ClickCount = 0, LastSeen = now, FirstSeen = now\<rparr>)\<rparr>, seen))"

fun reconcile ::
  "int \<Rightarrow> (nat \<Rightarrow> string list) \<Rightarrow> nat \<Rightarrow> DetectedEntity list \<Rightarrow> EntityTracker \<times> string set
     \<Rightarrow> EntityTracker \<times> string set" where
  "reconcile now order i [] ts = ts"
| "reconcile now order i (d # ds) ts = reconcile now order (Suc i) ds (reconcile1 now (order i) d ts)"

definition expire :: "int \<Rightarrow> string set \<Rightarrow> EntityTracker \<Rightarrow> EntityTracker" where
  "expire now seen t =
     t\<lparr>entities := (\<lambda>key. case entities t key of
                          None \<Rightarrow> None
                        | Some tracked \<Rightarrow>
                            if key \<notin> seen \<and> now - LastSeen tracked > ttl t then None else Some tracked)\<rparr>"

definition Update :: "EntityTracker \<Rightarrow> int \<Rightarrow> (nat \<Rightarrow> string list) \<Rightarrow> DetectedEntity list \<Rightarrow> EntityTracker" where
  "Update t now order detected =
     (case reconcile now order 0 detected (t, {}) of (t', seen) \<Rightarrow> expire now seen t')"

definition IsBlacklisted :: "EntityTracker \<Rightarrow> DetectedEntity \<Rightarrow> bool" where
  "IsBlacklisted t e = (blacklist t (entityKey t e) \<noteq> None)"

text \<open>
  \<open>RecordClick\<close> returns its result and the tracker after the call. Its clock readings
  (for a new entity's \<open>FirstSeen\<close> and \<open>LastSeen\<close> and for the blacklist stamp) are taken
  as one value \<open>now\<close>.
\<close>

definition RecordClick :: "EntityTracker \<Rightarrow> int \<Rightarrow> DetectedEntity \<Rightarrow> bool \<times> EntityTracker" where
  "RecordClick t now e =
     (let key = entityKey t e in
      if blacklist t key \<noteq> None then (True, t)
      else
        let tracked = (case entities t key of
                         Some found \<Rightarrow> found
                       | None \<Rightarrow> \<lparr>Entity = e, ClickCount = 0, LastSeen = now, FirstSeen = now\<rparr>);
            tracked' = tracked\<lparr>ClickCount := ClickCount tracked + 1\<rparr>;
            t1 = t\<lparr>entities := (entities t)(key \<mapsto> tracked')\<rparr>
        in if ClickCount tracked' \<ge> maxClicks t
           then (True, t1\<lparr>blacklist := (blacklist t1)(key \<mapsto> now)\<rparr>)
           else (False, t1))"

definition GetClickCount :: "EntityTracker \<Rightarrow> DetectedEntity \<Rightarrow> nat" where
  "GetClickCount t e = (case entities t (entityKey t e) of Some tracked \<Rightarrow> ClickCount tracked | None \<Rightarrow> 0)"

definition Reset :: "EntityTracker \<Rightarrow> EntityTracker" where
  "Reset t = t\<lparr>entities := Map.empty, blacklist := Map.empty, lastHighPriEntity := None\<rparr>"

text \<open>
  A run of calls on one tracker, in the order in which they are made: \<open>RecordClick\<close> and
  \<open>Update\<close>, each with its clock reading, \<open>Update\<close> also with the orders in which the map
  is visited. \<open>runCalls\<close> gives the results of the \<open>RecordClick\<close> calls of the run and the
  tracker after it. \<open>Reset\<close> is not among the calls of a run.
\<close>

datatype TrackerCall =
    CallRecordClick int DetectedEntity
  | CallUpdate int "nat \<Rightarrow> string list" "DetectedEntity list"

fun runCalls :: "EntityTracker \<Rightarrow> TrackerCall list \<Rightarrow> bool list \<times> EntityTracker" where
  "runCalls t [] = ([], t)"
| "runCalls t (CallRecordClick now e # cs) =
     (case RecordClick t now e of
        (r, t1) \<Rightarrow> (case runCalls t1 cs of (rs, t2) \<Rightarrow> (r # rs, t2)))"
| "runCalls t (CallUpdate now order detected # cs) = runCalls (Update t now order detected) cs"

text \<open>The click count stored under a key, 0 when the key is not tracked (as \<open>GetClickCount\<close> reports it).\<close>

definition clicksAt :: "EntityTracker \<Rightarrow> string \<Rightarrow> nat" where
  "clicksAt t key = (case entities t key of Some tracked \<Rightarrow> ClickCount tracked | None \<Rightarrow> 0)"

text \<open>
  \<open>clicksOn t key cs\<close> is the number of \<open>RecordClick\<close> calls of the run \<open>cs\<close> on detections
  of the key. \<open>keepsKey key t cs\<close> says of the run \<open>cs\<close>, started on the tracker \<open>t\<close>, that
  each of its \<open>Update\<close> calls leaves the click count and the blacklist entry of the key as
  they are.
\<close>

definition isClickOn :: "EntityTracker \<Rightarrow> string \<Rightarrow> TrackerCall \<Rightarrow> bool" where
  "isClickOn t key c =
     (case c of CallRecordClick now e \<Rightarrow> entityKey t e = key | CallUpdate now order detected \<Rightarrow> False)"

definition clicksOn :: "EntityTracker \<Rightarrow> string \<Rightarrow> TrackerCall list \<Rightarrow> nat" where
  "clicksOn t key cs = length (filter (isClickOn t key) cs)"


section \<open>The search-open step of the state machine (unnamed/part_001)\<close>

text \<open>
  The constants of package \<open>constants\<close> that the handler uses; durations are in
  nanoseconds. \<open>GlobalBot\<close> is the part of the bot's state that \<open>handleSearchOpenState\<close>
  reads or writes; the pointer actions of \<open>performClick\<close> are recorded in \<open>clicks\<close>. The
  retry counter starts at 0 and is only incremented or reset, so it is a natural number.
  The status and log callbacks and the sleep after a click do not change this state.
\<close>

definition SearchRetryInterval :: int where
  "SearchRetryInterval = 500 * 1000000"

definition WaitAfterClickNormal :: int where
  "WaitAfterClickNormal = 1 * 1000000000"

definition SearchMaxRetries :: nat where
  "SearchMaxRetries = 3"

definition DefaultTolerance :: real where
  "DefaultTolerance = 60"

datatype BotState =
  StateStopped | StateAutoDetect | StateEntry | StateEntryWaiting | StateInGame
  | StateExitStep1 | StateExitStep2 | StateSearchOpen | StateSearchSelect | StateSearchVerify

record Target =
  Name :: string
  Image_tgt :: image

record GlobalBot =
  State :: BotState
  targetsChannelOpen :: "Target list"
  searchRetryCount :: nat
  displayOffsetX :: int
  displayOffsetY :: int
  clicks :: "Point list"

datatype CaptureError = CaptureFailed

definition performClick :: "GlobalBot \<Rightarrow> string \<Rightarrow> int \<Rightarrow> int \<Rightarrow> int \<Rightarrow> int \<Rightarrow> GlobalBot" where
  "performClick b name x y w h =
     (let centerX = x + tdiv w 2; centerY = y + tdiv h 2;
          globalX = centerX + displayOffsetX b; globalY = centerY + displayOffsetY b
      in b\<lparr>clicks := clicks b @ [\<lparr>X = globalX, Y = globalY\<rparr>]\<rparr>)"

text \<open>
  \<open>searchOpenTargets\<close> is the loop over \<open>targetsChannelOpen\<close>: at the first target found
  it clicks, resets the counter, moves to \<open>StateSearchSelect\<close> and returns; \<open>None\<close> is the
  loop ending without a return. The argument of \<open>handleSearchOpenState\<close> is the result of
  \<open>CaptureScreen\<close>.
\<close>

fun searchOpenTargets :: "GlobalBot \<Rightarrow> image \<Rightarrow> Target list \<Rightarrow> (int \<times> GlobalBot) option" where
  "searchOpenTargets b screenImg [] = None"
| "searchOpenTargets b screenImg (target # rest) =
     (case FindTemplate screenImg (Image_tgt target) DefaultTolerance of
        (fx, fy, found) \<Rightarrow>
          if found then
            Some (WaitAfterClickNormal,
                  (performClick b (Name target) fx fy (Dx (Bounds (Image_tgt target))) (Dy (Bounds (Image_tgt target))))
                    \<lparr>searchRetryCount := 0, State := StateSearchSelect\<rparr>)
          else searchOpenTargets b screenImg rest)"

definition handleSearchOpenState :: "GlobalBot \<Rightarrow> CaptureError + image \<Rightarrow> int \<times> GlobalBot" where
  "handleSearchOpenState b captured =
     (case captured of
        Inl err \<Rightarrow> (SearchRetryInterval, b)
      | Inr screenImg \<Rightarrow>
          (case searchOpenTargets b screenImg (targetsChannelOpen b) of
             Some result \<Rightarrow> result
           | None \<Rightarrow>
               let b1 = b\<lparr>searchRetryCount := searchRetryCount b + 1\<rparr> in
               if searchRetryCount b1 \<ge> SearchMaxRetries
               then (SearchRetryInterval, b1\<lparr>searchRetryCount := 0, State := StateAutoDetect\<rparr>)
               else (SearchRetryInterval, b1)))"

text \<open>
  The ticks the loop spends in \<open>StateSearchOpen\<close>: \<open>processState\<close> calls
  \<open>handleSearchOpenState\<close> as long as that is the state, once per tick, each tick with its
  own capture; once the state has changed, the ticks belong to another handler.
\<close>

fun searchOpenTicks :: "GlobalBot \<Rightarrow> (CaptureError + image) list \<Rightarrow> GlobalBot" where
  "searchOpenTicks b [] = b"
| "searchOpenTicks b (captured # rest) =
     (if State b = StateSearchOpen then searchOpenTicks (snd (handleSearchOpenState b captured)) rest
      else b)"

text \<open>
  A failed tick, in the specification's words: the screen was captured and no channel-open
  marker is found on it.
\<close>

definition failedTick :: "GlobalBot \<Rightarrow> CaptureError + image \<Rightarrow> bool" where
  "failedTick b captured =
     (case captured of
        Inl err \<Rightarrow> False
      | Inr screenImg \<Rightarrow>
          (\<forall>target \<in> set (targetsChannelOpen b).
             \<not> snd (snd (FindTemplate screenImg (Image_tgt target) DefaultTolerance))))"

section \<open>Concrete detections and trackers\<close>

text \<open>
  \<open>entA\<close> and \<open>entB\<close> are one pixel apart on either side of a cell boundary; \<open>entC\<close> and
  \<open>entD\<close> lie in one cell.
\<close>

definition entA :: DetectedEntity where
  "entA = \<lparr>TemplateName = ''20.png'', Priority = 20, Position = \<lparr>X = 19, Y = 0\<rparr>, TemplateSize = \<lparr>X = 10, Y = 10\<rparr>\<rparr>"

definition entB :: DetectedEntity where
  "entB = \<lparr>TemplateName = ''20.png'', Priority = 20, Position = \<lparr>X = 20, Y = 0\<rparr>, TemplateSize = \<lparr>X = 10, Y = 10\<rparr>\<rparr>"

definition entC :: DetectedEntity where
  "entC = \<lparr>TemplateName = ''20.png'', Priority = 20, Position = \<lparr>X = 21, Y = 45\<rparr>, TemplateSize = \<lparr>X = 10, Y = 10\<rparr>\<rparr>"

definition entD :: DetectedEntity where
  "entD = \<lparr>TemplateName = ''20-1.png'', Priority = 20, Position = \<lparr>X = 39, Y = 59\<rparr>, TemplateSize = \<lparr>X = 10, Y = 10\<rparr>\<rparr>"

text \<open>
  \<open>entA2\<close> lies in the cell of \<open>entA\<close>; \<open>entA3\<close> lies 20 pixels below \<open>entA\<close>, in the next
  cell. \<open>clicks7\<close> is a run of seven clicks, at times 1 to 7, on detections of the cell of
  \<open>entA\<close>. \<open>calls7\<close> is the run as the bot makes it: before each click an \<open>Update\<close> with
  the detection that is clicked next. In \<open>callsExpire\<close> an \<open>Update\<close> that detects nothing,
  five seconds later, comes between the sixth click and the seventh; in \<open>callsMoved\<close> an
  \<open>Update\<close> that detects \<open>entA3\<close> follows the seven clicks. \<open>orderA\<close> is the order in which
  the only key of these trackers is visited.
\<close>

definition entA2 :: DetectedEntity where
  "entA2 = \<lparr>TemplateName = ''20-1.png'', Priority = 20, Position = \<lparr>X = 3, Y = 7\<rparr>, TemplateSize = \<lparr>X = 10, Y = 10\<rparr>\<rparr>"

definition entA3 :: DetectedEntity where
  "entA3 = \<lparr>TemplateName = ''20.png'', Priority = 20, Position = \<lparr>X = 19, Y = 20\<rparr>, TemplateSize = \<lparr>X = 10, Y = 10\<rparr>\<rparr>"

definition orderA :: "nat \<Rightarrow> string list" where
  "orderA i = [''20_0_0'']"

definition clicks7 :: "TrackerCall list" where
  "clicks7 = [CallRecordClick 1 entA, CallRecordClick 2 entA2, CallRecordClick 3 entA, CallRecordClick 4 entA2,
              CallRecordClick 5 entA, CallRecordClick 6 entA2, CallRecordClick 7 entA]"


definition callsExpire :: "TrackerCall list" where
  "callsExpire = [CallRecordClick 1 entA, CallRecordClick 2 entA2, CallRecordClick 3 entA, CallRecordClick 4 entA2,
                  CallRecordClick 5 entA, CallRecordClick 6 entA2,
                  CallUpdate 5000000000 orderA [], CallRecordClick 5000000001 entA]"

definition callsMoved :: "TrackerCall list" where
  "callsMoved = clicks7 @ [CallUpdate 8 orderA [entA3]]"

text \<open>
  A tracker that holds one entity of priority 5 at \<open>(100, 500)\<close>, clicked three times, first
  seen at time 10 and last seen at time 40, and blacklisted or not; \<open>detUp\<close> is the
  detection of priority 5 at \<open>(105, 350)\<close>; \<open>detHere\<close> is a detection at the entity's own
  place and \<open>detAbove\<close> one 100 pixels above it.
\<close>

definition detOld :: DetectedEntity where
  "detOld = \<lparr>TemplateName = ''5.png'', Priority = 5, Position = \<lparr>X = 100, Y = 500\<rparr>, TemplateSize = \<lparr>X = 40, Y = 30\<rparr>\<rparr>"

definition trackedOld :: TrackedEntity where
  "trackedOld = \<lparr>Entity = detOld, ClickCount = 3, LastSeen = 40, FirstSeen = 10\<rparr>"

definition trackerOne :: EntityTracker where
  "trackerOne = NewEntityTracker\<lparr>entities := [''5_100_500'' \<mapsto> trackedOld]\<rparr>"

definition trackerOneBlack :: EntityTracker where
  "trackerOneBlack = trackerOne\<lparr>blacklist := [''5_100_500'' \<mapsto> 30]\<rparr>"

definition detUp :: DetectedEntity where
  "detUp = \<lparr>TemplateName = ''5.png'', Priority = 5, Position = \<lparr>X = 105, Y = 350\<rparr>, TemplateSize = \<lparr>X = 40, Y = 30\<rparr>\<rparr>"

definition detHere :: DetectedEntity where
  "detHere = \<lparr>TemplateName = ''5.png'', Priority = 5, Position = \<lparr>X = 101, Y = 502\<rparr>, TemplateSize = \<lparr>X = 40, Y = 30\<rparr>\<rparr>"

definition detAbove :: DetectedEntity where
  "detAbove = \<lparr>TemplateName = ''5.png'', Priority = 5, Position = \<lparr>X = 100, Y = 400\<rparr>, TemplateSize = \<lparr>X = 40, Y = 30\<rparr>\<rparr>"

definition detFar :: DetectedEntity where
  "detFar = \<lparr>TemplateName = ''5.png'', Priority = 5, Position = \<lparr>X = 600, Y = 100\<rparr>, TemplateSize = \<lparr>X = 40, Y = 30\<rparr>\<rparr>"

text \<open>The order in which the only key of \<open>trackerOne\<close> is visited.\<close>

definition orderOne :: "nat \<Rightarrow> string list" where
  "orderOne i = [''5_100_500'']"

text \<open>
  A bot in \<open>StateSearchOpen\<close> whose only channel-open marker is a white pixel, and three
  captures of the black frame.
\<close>

definition tmplWhite :: image where
  "tmplWhite = \<lparr>origin = \<lparr>X = 0, Y = 0\<rparr>, width = 1, height = 1,
                At = (\<lambda>x y. if x = 0 \<and> y = 0 then whitePx else noPx)\<rparr>"

definition botOpen :: GlobalBot where
  "botOpen = \<lparr>State = StateSearchOpen, targetsChannelOpen = [\<lparr>Name = ''open.png'', Image_tgt = tmplWhite\<rparr>],
              searchRetryCount = 0, displayOffsetX = 0, displayOffsetY = 0, clicks = []\<rparr>"

definition capturesBlack :: "(CaptureError + image) list" where
  "capturesBlack = [Inr frameB, Inr frameB, Inr frameB]"

section \<open>Numerical facts about colorSimilar\<close>



lemma sqrt_le_iff_sq:
  fixes n tol :: real
  assumes "0 \<le> n"
  shows "sqrt n \<le> tol \<longleftrightarrow> 0 \<le> tol \<and> n \<le> tol\<^sup>2"
proof
  assume h: "sqrt n \<le> tol"
  have "0 \<le> sqrt n" using assms by simp
  then have t: "0 \<le> tol" using h by linarith
  have "sqrt n \<le> sqrt (tol\<^sup>2)" using h t by simp
  then have "n \<le> tol\<^sup>2" by (simp only: real_sqrt_le_iff)
  with t show "0 \<le> tol \<and> n \<le> tol\<^sup>2" by simp
next
  assume h: "0 \<le> tol \<and> n \<le> tol\<^sup>2"
  then have "sqrt n \<le> sqrt (tol\<^sup>2)" by (simp only: real_sqrt_le_iff)
  then show "sqrt n \<le> tol" using h by simp
qed

section \<open>Rounding to float64\<close>

lemma roundHalfEven_near: "\<bar>of_int (roundHalfEven y) - y\<bar> \<le> 1 / 2"
  unfolding roundHalfEven_def Let_def by (simp; linarith)

lemma roundHalfEven_eq:
  assumes "of_int m - 1 / 2 < y" "y < of_int m + 1 / 2"
  shows "roundHalfEven y = m"
proof -
  have n: "\<bar>of_int (roundHalfEven y) - y\<bar> \<le> 1 / 2" by (rule roundHalfEven_near)
  have "\<bar>real_of_int (roundHalfEven y) - real_of_int m\<bar> < 1" using n assms by linarith
  hence "\<bar>real_of_int (roundHalfEven y - m)\<bar> < 1" by simp
  hence "\<bar>roundHalfEven y - m\<bar> < 1" by linarith
  thus ?thesis by linarith
qed

lemma roundHalfEven_of_int: "roundHalfEven (of_int k) = k"
  by (rule roundHalfEven_eq) simp_all

lemma ulp64_pos: "0 < ulp64 x"
  by (simp add: ulp64_def)

lemma ulp64_le:
  assumes "0 < x" "x < 2 ^ 16"
  shows "ulp64 x \<le> 1 / 2 ^ 37"
proof -
  have "x < 2 powr 16" using assms by simp
  hence "log 2 x < 16" using assms by (simp add: log_less_iff)
  hence "\<lfloor>log 2 x\<rfloor> \<le> 15" by linarith
  hence "real_of_int \<lfloor>log 2 x\<rfloor> - 52 \<le> - 37" by linarith
  hence "2 powr (real_of_int \<lfloor>log 2 x\<rfloor> - 52) \<le> 2 powr (- 37)"
    by (simp only: powr_le_cancel_iff) 
  also have "(2::real) powr (- 37) = 1 / 2 ^ 37"
    by (simp add: powr_minus_divide powr_realpow [symmetric] del: powr_realpow)
  finally show ?thesis by (simp add: ulp64_def)
qed

lemma roundFloat64_near:
  assumes "0 < x" "x < 2 ^ 16"
  shows "\<bar>roundFloat64 x - x\<bar> \<le> 1 / 2 ^ 38"
proof -
  let ?u = "ulp64 x"
  have u: "0 < ?u" by (rule ulp64_pos)
  have "\<bar>of_int (roundHalfEven (x / ?u)) - x / ?u\<bar> \<le> 1 / 2" by (rule roundHalfEven_near)
  hence "\<bar>of_int (roundHalfEven (x / ?u)) - x / ?u\<bar> * ?u \<le> 1 / 2 * ?u"
    using u by (simp only: mult_le_cancel_right_pos)
  moreover have "\<bar>of_int (roundHalfEven (x / ?u)) - x / ?u\<bar> * ?u
      = \<bar>of_int (roundHalfEven (x / ?u)) * ?u - x\<bar>"
  proof -
    have "\<bar>of_int (roundHalfEven (x / ?u)) - x / ?u\<bar> * ?u
       = \<bar>(of_int (roundHalfEven (x / ?u)) - x / ?u) * ?u\<bar>"
      using u by (simp add: abs_mult)
    also have "(of_int (roundHalfEven (x / ?u)) - x / ?u) * ?u = of_int (roundHalfEven (x / ?u)) * ?u - x"
      using u by (simp add: left_diff_distrib)
    finally show ?thesis .
  qed
  ultimately have "\<bar>of_int (roundHalfEven (x / ?u)) * ?u - x\<bar> \<le> 1 / 2 * ?u" by simp
  also have "1 / 2 * ?u \<le> 1 / 2 * (1 / 2 ^ 37)" using ulp64_le [OF assms] by simp
  finally show ?thesis using assms by (simp add: roundFloat64_def)
qed


lemma roundFloat64_exact:
  assumes "0 < x" "x / ulp64 x = of_int m"
  shows "roundFloat64 x = x"
proof -
  have u: "0 < ulp64 x" by (rule ulp64_pos)
  have "of_int (roundHalfEven (x / ulp64 x)) * ulp64 x = x / ulp64 x * ulp64 x"
    by (simp only: assms(2) roundHalfEven_of_int)
  also have "\<dots> = x" using u by simp
  finally show ?thesis using assms(1) by (simp add: roundFloat64_def)
qed

lemma ulp64_int:
  assumes "1 \<le> k" "k < 2 ^ 53"
  shows "\<exists>n. ulp64 (of_int k) = 1 / 2 ^ n"
proof -
  let ?x = "real_of_int k"
  have x: "1 \<le> ?x" "?x < 2 ^ 53" using assms by (simp_all flip: of_int_less_iff)
  have "?x < 2 powr 53" using x by simp
  hence "log 2 ?x < 53" using x by (simp add: log_less_iff)
  hence hi: "\<lfloor>log 2 ?x\<rfloor> \<le> 52" by linarith
  have "0 \<le> log 2 ?x" using x by simp
  hence lo: "0 \<le> \<lfloor>log 2 ?x\<rfloor>" by simp
  define n where "n = nat (52 - \<lfloor>log 2 ?x\<rfloor>)"
  have "real_of_int \<lfloor>log 2 ?x\<rfloor> - 52 = - real n" using hi lo by (simp add: n_def)
  hence "ulp64 ?x = 2 powr (- real n)" by (simp add: ulp64_def)
  also have "\<dots> = 1 / 2 ^ n" by (simp add: powr_minus_divide powr_realpow)
  finally show ?thesis by blast
qed

lemma roundFloat64_int:
  assumes "1 \<le> k" "k < 2 ^ 53"
  shows "roundFloat64 (of_int k) = of_int k"
proof -
  obtain n where n: "ulp64 (of_int k) = 1 / 2 ^ n" using ulp64_int [OF assms] by blast
  have "real_of_int k / ulp64 (of_int k) = of_int (k * 2 ^ n)" by (simp add: n)
  moreover have "0 < real_of_int k" using assms by simp
  ultimately show ?thesis by (rule roundFloat64_exact [rotated])
qed

lemma roundFloat64_0: "roundFloat64 0 = 0"
  by (simp add: roundFloat64_def)

text \<open>
  Against an integer the rounded square root of a \<open>uint32\<close> compares as the exact one: the
  rounding moves the root by at most \<open>2^-38\<close>, an integer root is exact, and any other root
  is further than that from every integer.
\<close>

lemma math_Sqrt_le_int:
  assumes n: "n < 2 ^ 32"
  shows "math_Sqrt (real n) \<le> of_int T \<longleftrightarrow> sqrt (real n) \<le> of_int T"
proof (cases "n = 0")
  case True
  thus ?thesis by (simp add: math_Sqrt_def roundFloat64_0)
next
  case False
  define s where "s = sqrt (real n)"
  define r where "r = math_Sqrt (real n)"
  have s1: "1 \<le> s" using False by (simp add: s_def)
  have "real n < 2 ^ 32" using n by (simp flip: of_nat_less_iff)
  hence "sqrt (real n) < sqrt (2 ^ 32)" by (simp only: real_sqrt_less_iff)
  moreover have "sqrt (2 ^ 32) = (2::real) ^ 16"
    by (rule real_sqrt_unique) simp_all
  ultimately have s2: "s < 2 ^ 16" by (simp add: s_def)
  have ss: "s * s = real n" by (simp add: s_def)
  have near: "\<bar>r - s\<bar> \<le> 1 / 2 ^ 38"
    unfolding r_def math_Sqrt_def s_def [symmetric]
    by (rule roundFloat64_near) (use s1 s2 in simp_all)
  have "r \<le> of_int T \<longleftrightarrow> s \<le> of_int T"
  proof
    assume le: "s \<le> real_of_int T"
    show "r \<le> real_of_int T"
    proof (cases "s = real_of_int T")
      case True
      have "1 \<le> T" using s1 True by simp
      moreover have "T < 2 ^ 53"
      proof -
        have "real_of_int T < 2 ^ 53" using s2 True by simp
        thus ?thesis by (simp flip: of_int_less_iff)
      qed
      ultimately have "roundFloat64 (of_int T) = of_int T" by (rule roundFloat64_int)
      thus ?thesis by (simp add: r_def math_Sqrt_def s_def [symmetric] True)
    next
      case False
      hence lt: "s < real_of_int T" using le by simp
      have T0: "0 < real_of_int T" using s1 lt by linarith
      have "s * s < real_of_int T * real_of_int T"
        using lt s1 by (intro mult_strict_mono) simp_all
      hence "real_of_int (int n) < real_of_int (T * T)" using ss by simp
      hence "int n < T * T" by (simp only: of_int_less_iff)
      hence "int n + 1 \<le> T * T" by simp
      hence "real_of_int (int n + 1) \<le> real_of_int (T * T)" by (simp only: of_int_le_iff)
      hence gap: "s * s + 1 \<le> real_of_int T * real_of_int T" using ss by simp
      have "s + 1 / 2 ^ 38 < real_of_int T"
      proof (cases "real_of_int T \<le> 2 ^ 17")
        case True
        have "(real_of_int T - s) * (real_of_int T + s) = real_of_int T * real_of_int T - s * s"
          by (simp add: algebra_simps)
        hence a: "1 \<le> (real_of_int T - s) * (real_of_int T + s)" using gap by simp
        have b: "real_of_int T + s < 2 ^ 18" using True s2 by simp
        have c: "0 < real_of_int T - s" using lt by simp
        have "(real_of_int T - s) * (real_of_int T + s) \<le> (real_of_int T - s) * 2 ^ 18"
          using b c by (intro mult_left_mono) simp_all
        hence "1 \<le> (real_of_int T - s) * 2 ^ 18" using a by linarith
        thus ?thesis by simp
      next
        case False
        thus ?thesis using s2 by simp
      qed
      thus ?thesis using near by linarith
    qed
  next
    assume le: "r \<le> real_of_int T"
    show "s \<le> real_of_int T"
    proof (rule ccontr)
      assume "\<not> s \<le> real_of_int T"
      hence gt: "real_of_int T < s" by simp
      have "real_of_int T + 1 / 2 ^ 38 < s"
      proof (cases "0 \<le> T")
        case True
        hence T0: "0 \<le> real_of_int T" by simp
        have "real_of_int T * real_of_int T < s * s"
          using gt T0 by (intro mult_strict_mono') simp_all
        hence "real_of_int (T * T) < real_of_int (int n)" using ss by simp
        hence "T * T < int n" by (simp only: of_int_less_iff)
        hence "T * T + 1 \<le> int n" by simp
        hence "real_of_int (T * T + 1) \<le> real_of_int (int n)" by (simp only: of_int_le_iff)
        hence gap: "real_of_int T * real_of_int T + 1 \<le> s * s" using ss by simp
        have "(s - real_of_int T) * (s + real_of_int T) = s * s - real_of_int T * real_of_int T"
          by (simp add: algebra_simps)
        hence a: "1 \<le> (s - real_of_int T) * (s + real_of_int T)" using gap by simp
        have b: "s + real_of_int T < 2 ^ 17" using gt s2 by simp
        have c: "0 < s - real_of_int T" using gt by simp
        have "(s - real_of_int T) * (s + real_of_int T) \<le> (s - real_of_int T) * 2 ^ 17"
          using b c by (intro mult_left_mono) simp_all
        hence "1 \<le> (s - real_of_int T) * 2 ^ 17" using a by linarith
        thus ?thesis by simp
      next
        case False
        hence "real_of_int T < 0" by simp
        thus ?thesis using s1 by simp
      qed
      thus False using near le by linarith
    qed
  qed
  thus ?thesis by (simp add: r_def s_def)
qed


lemma ulp64_binade0:
  assumes "1 \<le> x" "x < 2"
  shows "ulp64 x = 1 / 2 ^ 52"
proof -
  have "0 \<le> log 2 x" using assms by simp
  moreover have "log 2 x < 1" using assms by (simp add: log_less_iff)
  ultimately have "\<lfloor>log 2 x\<rfloor> = 0" by linarith
  hence "ulp64 x = 2 powr (- real 52)" by (simp add: ulp64_def)
  also have "\<dots> = 1 / 2 ^ 52" by (simp only: powr_minus_divide powr_realpow zero_less_numeral)
  finally show ?thesis .
qed

lemma roundFloat64_binade0:
  assumes "1 \<le> x" "x < 2"
    and "of_int m - 1 / 2 < x * 2 ^ 52" "x * 2 ^ 52 < of_int m + 1 / 2"
  shows "roundFloat64 x = of_int m / 2 ^ 52"
proof -
  have u: "ulp64 x = 1 / 2 ^ 52" using assms(1,2) by (rule ulp64_binade0)
  have "roundHalfEven (x * 2 ^ 52) = m" using assms(3,4) by (rule roundHalfEven_eq)
  thus ?thesis using assms(1) by (simp add: roundFloat64_def u)
qed

lemma sqrt3_bounds: "1 \<le> sqrt 3" "sqrt 3 < 2"
proof -
  show "1 \<le> sqrt 3" by simp
  have "sqrt 3 < sqrt 4" by (simp only: real_sqrt_less_iff)
  also have "sqrt 4 = 2" by (rule real_sqrt_unique) simp_all
  finally show "sqrt 3 < 2" .
qed

lemma math_Sqrt_3: "math_Sqrt 3 = sqrt3_f64"
proof -
  have lo: "real_of_int 7800463371553962 - 1 / 2 < sqrt 3 * 2 ^ 52"
  proof -
    have "((real_of_int 7800463371553962 - 1 / 2) / 2 ^ 52)\<^sup>2 < 3" by (simp add: power2_eq_square)
    hence "(real_of_int 7800463371553962 - 1 / 2) / 2 ^ 52 < sqrt 3" by (rule real_less_rsqrt)
    thus ?thesis by (simp add: field_simps)
  qed
  have hi: "sqrt 3 * 2 ^ 52 < real_of_int 7800463371553962 + 1 / 2"
  proof -
    have "3 < ((real_of_int 7800463371553962 + 1 / 2) / 2 ^ 52)\<^sup>2" by (simp add: power2_eq_square)
    hence "sqrt 3 < (real_of_int 7800463371553962 + 1 / 2) / 2 ^ 52" by (intro real_less_lsqrt) simp_all
    thus ?thesis by (simp add: field_simps)
  qed
  have "roundFloat64 (sqrt 3) = real_of_int 7800463371553962 / 2 ^ 52"
    using sqrt3_bounds lo hi by (rule roundFloat64_binade0)
  thus ?thesis by (simp add: math_Sqrt_def sqrt3_f64_def)
qed

lemma sqrt3_f64_float64: "roundFloat64 sqrt3_f64 = sqrt3_f64"
proof -
  have "roundFloat64 sqrt3_f64 = real_of_int 7800463371553962 / 2 ^ 52"
    by (rule roundFloat64_binade0) (simp_all add: sqrt3_f64_def)
  thus ?thesis by (simp add: sqrt3_f64_def)
qed

lemma sqrt3_f64_lt: "sqrt3_f64 < sqrt 3"
proof -
  have "sqrt3_f64\<^sup>2 < 3" by (simp add: sqrt3_f64_def power2_eq_square)
  thus ?thesis by (rule real_less_rsqrt)
qed


section \<open>colorSimilar\<close>

lemma unat_uint32_less: "unat (w :: uint32) < 2 ^ 32"
  using unsigned_less [of w, where ?'a = nat] by simp

lemma colorSimilar_int:
  "colorSimilar r1 g1 b1 r2 g2 b2 (of_int T) \<longleftrightarrow>
     sqrt (real (unat ((r1 - r2) * (r1 - r2) + (g1 - g2) * (g1 - g2) + (b1 - b2) * (b1 - b2)))) \<le> of_int T"
  unfolding colorSimilar_def Let_def
  by (rule math_Sqrt_le_int) (rule unat_uint32_less)

text \<open>
  A square-root-free form of the comparison with a tolerance written as a numeral, used to
  evaluate concrete inputs.
\<close>

lemma colorSimilar_numeral:
  "colorSimilar r1 g1 b1 r2 g2 b2 (numeral n) \<longleftrightarrow>
     unat ((r1 - r2) * (r1 - r2) + (g1 - g2) * (g1 - g2) + (b1 - b2) * (b1 - b2)) \<le> (numeral n)\<^sup>2"
proof -
  let ?s = "unat ((r1 - r2) * (r1 - r2) + (g1 - g2) * (g1 - g2) + (b1 - b2) * (b1 - b2))"
  have "colorSimilar r1 g1 b1 r2 g2 b2 (of_int (numeral n)) \<longleftrightarrow> sqrt (real ?s) \<le> of_int (numeral n)"
    by (rule colorSimilar_int)
  then have "colorSimilar r1 g1 b1 r2 g2 b2 (numeral n) \<longleftrightarrow> sqrt (real ?s) \<le> numeral n"
    by simp
  also have "\<dots> \<longleftrightarrow> (0::real) \<le> numeral n \<and> real ?s \<le> (numeral n)\<^sup>2"
    by (rule sqrt_le_iff_sq) (rule of_nat_0_le_iff)
  also have "\<dots> \<longleftrightarrow> real ?s \<le> real ((numeral n)\<^sup>2)"
    by simp
  also have "\<dots> \<longleftrightarrow> ?s \<le> (numeral n)\<^sup>2"
    by (simp only: of_nat_le_iff)
  finally show ?thesis .
qed




lemma colorSimilar_sqrt3: "colorSimilar 1 1 1 0 0 0 sqrt3_f64"
  by (simp add: colorSimilar_def math_Sqrt_3)



text \<open>
  The claim as stated fails for a tolerance that is not an integer. The \<open>float64\<close> nearest to
  the square root of 3 lies below the root; with that value as the tolerance, \<open>(1, 1, 1)\<close>
  is similar to \<open>(0, 0, 0)\<close> for the code, whose \<open>math.Sqrt(3)\<close> is the tolerance itself,
  while the distance \<open>sqrt 3\<close> exceeds the tolerance.
\<close>

theorem colorSimilar_rounding_counterexample:
  "0 \<le> sqrt3_f64 \<and> roundFloat64 sqrt3_f64 = sqrt3_f64
   \<and> (1 :: uint32) \<le> 255 \<and> (0 :: uint32) \<le> 255
   \<and> colorSimilar 1 1 1 0 0 0 sqrt3_f64
   \<and> \<not> sqrt (real_of_int ((uint (1 :: uint32) - uint (0 :: uint32))\<^sup>2
                + (uint (1 :: uint32) - uint (0 :: uint32))\<^sup>2
                + (uint (1 :: uint32) - uint (0 :: uint32))\<^sup>2)) \<le> sqrt3_f64"
proof -
  have p: "0 \<le> sqrt3_f64"
    by (simp add: sqrt3_f64_def)
  have d: "\<not> sqrt (real_of_int ((uint (1 :: uint32) - uint (0 :: uint32))\<^sup>2
                + (uint (1 :: uint32) - uint (0 :: uint32))\<^sup>2
                + (uint (1 :: uint32) - uint (0 :: uint32))\<^sup>2)) \<le> sqrt3_f64"
    using sqrt3_f64_lt by simp
  from p sqrt3_f64_float64 colorSimilar_sqrt3 d show ?thesis by simp
qed

section \<open>The scanning loops\<close>

lemma match_iff:
  "match s t sx sy tol \<longleftrightarrow>
     (\<forall>ty < height t. \<forall>tx < width t. pixelOk s t sx sy tol (int tx) (int ty))"
  by (auto simp: match_def list_all_iff Dx_def Dy_def Bounds_def)

lemma quickCheck_eq_pixelOk:
  "quickCheck s t tol x y dx dy = pixelOk s t x y tol dx dy"
  by (auto simp: quickCheck_def pixelOk_def word_greater_zero_iff split: prod.splits)

lemma hitAt_eq_match:
  assumes "0 < width t" "0 < height t"
  shows "hitAt s t tol x y = match s t x y tol"
proof -
  have k0: "match s t x y tol \<Longrightarrow> pixelOk s t x y tol 0 0"
    using assms by (auto simp: match_iff dest!: spec [of _ 0])
  have k1: "match s t x y tol \<Longrightarrow> pixelOk s t x y tol (int (width t) div 2) (int (height t) div 2)"
  proof -
    assume m: "match s t x y tol"
    have "width t div 2 < width t" "height t div 2 < height t" using assms by simp_all
    then have "pixelOk s t x y tol (int (width t div 2)) (int (height t div 2))"
      using m by (simp add: match_iff)
    then show ?thesis by (simp add: zdiv_int)
  qed
  have k2: "match s t x y tol \<Longrightarrow> pixelOk s t x y tol (int (width t) - 1) (int (height t) - 1)"
  proof -
    assume m: "match s t x y tol"
    have e: "int (width t - 1) = int (width t) - 1" "int (height t - 1) = int (height t) - 1"
      using assms by auto
    have "width t - 1 < width t" "height t - 1 < height t" using assms by simp_all
    then have "pixelOk s t x y tol (int (width t - 1)) (int (height t - 1))"
      using m unfolding match_iff by blast
    then show ?thesis by (simp only: e)
  qed
  show ?thesis
    using k0 k1 k2
    by (auto simp: hitAt_def Let_def quickCheck_eq_pixelOk Dx_def Dy_def Bounds_def)
qed

lemma scanRow_sound:
  "p \<in> set (scanRow s t tol area y x) \<Longrightarrow>
     Y p = y \<and> x \<le> X p \<and> X p \<le> X (Max_pt area) - Dx (Bounds t) \<and> hitAt s t tol (X p) y"
proof (induction s t tol area y x rule: scanRow.induct)
  case (1 s t tol area y x)
  have nn: "0 \<le> Dx (Bounds t) div 2" by (simp add: Dx_def Bounds_def)
  show ?case
  proof (cases "x \<le> X (Max_pt area) - Dx (Bounds t)")
    case False
    with "1.prems" show ?thesis by (simp add: scanRow.simps)
  next
    case inr: True
    show ?thesis
    proof (cases "hitAt s t tol x y")
      case True
      with inr "1.prems" have "p = \<lparr>X = x, Y = y\<rparr> \<or> p \<in> set (scanRow s t tol area y (x + Dx (Bounds t) div 2 + 1))"
        by (simp add: scanRow.simps [of s t tol area y x])
      then show ?thesis
      proof
        assume "p = \<lparr>X = x, Y = y\<rparr>"
        with inr True show ?thesis by simp
      next
        assume "p \<in> set (scanRow s t tol area y (x + Dx (Bounds t) div 2 + 1))"
        from "1.IH"(1) [OF inr True this]
        have a: "Y p = y" "x + Dx (Bounds t) div 2 + 1 \<le> X p"
          "X p \<le> X (Max_pt area) - Dx (Bounds t)" "hitAt s t tol (X p) y"
          by simp_all
        from a(2) nn have "x \<le> X p" by linarith
        with a show ?thesis by simp
      qed
    next
      case False
      with inr "1.prems" have "p \<in> set (scanRow s t tol area y (x + 1))"
        by (simp add: scanRow.simps [of s t tol area y x])
      from "1.IH"(2) [OF inr False this] show ?thesis by simp
    qed
  qed
qed






lemma scanRows_set:
  "p \<in> set (scanRows s t tol area y0) \<longleftrightarrow>
     y0 \<le> Y p \<and> Y p \<le> Y (Max_pt area) - Dy (Bounds t)
     \<and> p \<in> set (scanRow s t tol area (Y p) (X (Min_pt area)))"
proof (induction s t tol area y0 rule: scanRows.induct)
  case (1 s t tol area y)
  show ?case
  proof (cases "y \<le> Y (Max_pt area) - Dy (Bounds t)")
    case False
    then show ?thesis by (auto simp: scanRows.simps [of s t tol area y])
  next
    case True
    have unf: "scanRows s t tol area y
                 = scanRow s t tol area y (X (Min_pt area)) @ scanRows s t tol area (y + 1)"
      using True by (simp add: scanRows.simps [of s t tol area y])
    have here: "p \<in> set (scanRow s t tol area y (X (Min_pt area))) \<Longrightarrow> Y p = y"
      using scanRow_sound by blast
    have "Y p = y \<or> y + 1 \<le> Y p \<or> Y p < y" by linarith
    then show ?thesis
      unfolding unf using "1.IH" [OF True] True here by auto
  qed
qed



lemma scanRows_Nil_iff:
  "scanRows s t tol area y0 = [] \<longleftrightarrow>
     (\<forall>y. y0 \<le> y \<and> y \<le> Y (Max_pt area) - Dy (Bounds t) \<longrightarrow> scanRow s t tol area y (X (Min_pt area)) = [])"
proof -
  have "scanRows s t tol area y0 = [] \<longleftrightarrow> (\<forall>p. p \<notin> set (scanRows s t tol area y0))"
    by (cases "scanRows s t tol area y0") auto
  also have "\<dots> \<longleftrightarrow> (\<forall>y. y0 \<le> y \<and> y \<le> Y (Max_pt area) - Dy (Bounds t) \<longrightarrow>
                         (\<forall>p. p \<notin> set (scanRow s t tol area y (X (Min_pt area)))))"
    unfolding scanRows_set using scanRow_sound by blast
  also have "\<dots> \<longleftrightarrow> (\<forall>y. y0 \<le> y \<and> y \<le> Y (Max_pt area) - Dy (Bounds t) \<longrightarrow>
                         scanRow s t tol area y (X (Min_pt area)) = [])"
    by (metis all_not_in_conv set_empty)
  finally show ?thesis .
qed

lemma scanRow_too_wide:
  "X (Max_pt area) - Dx (Bounds t) < x \<Longrightarrow> scanRow s t tol area y x = []"
  by (simp add: scanRow.simps [of s t tol area y x])

lemma scanRows_too_high:
  "Y (Max_pt area) - Dy (Bounds t) < y \<Longrightarrow> scanRows s t tol area y = []"
  by (simp add: scanRows.simps [of s t tol area y])

lemma FindAllTemplates_small_frame:
  assumes "Dx (Bounds s) < Dx (Bounds t) \<or> Dy (Bounds s) < Dy (Bounds t)"
  shows "FindAllTemplates s t tol = []"
  using assms
proof
  assume "Dx (Bounds s) < Dx (Bounds t)"
  then have "X (Max_pt (Bounds s)) - Dx (Bounds t) < X (Min_pt (Bounds s))"
    by (simp add: Dx_def)
  then show ?thesis
    by (simp add: FindAllTemplates_def scanRows_Nil_iff scanRow_too_wide)
next
  assume "Dy (Bounds s) < Dy (Bounds t)"
  then have "Y (Max_pt (Bounds s)) - Dy (Bounds t) < Y (Min_pt (Bounds s))"
    by (simp add: Dy_def)
  then show ?thesis
    by (simp add: FindAllTemplates_def scanRows_too_high)
qed

text \<open>Unfolding rules that evaluate the matcher on a concrete frame and template.\<close>

lemmas matcher_eval =
  FindAllTemplates_def scanRows.simps scanRow.simps hitAt_def quickCheck_def match_def pixelOk_def
  getRgbAndAlpha_def Bounds_def Dx_def Dy_def colorSimilar_numeral Let_def upt_conv_Cons
  blackPx_def whitePx_def noPx_def greyPx_def

section \<open>What FindAllTemplates returns\<close>










section \<open>Transparent template pixels\<close>

lemma pixelOk_cong:
  assumes "origin t1 = origin t2"
    and "At t1 (X (origin t1) + tx) (Y (origin t1) + ty) = At t2 (X (origin t1) + tx) (Y (origin t1) + ty)
         \<or> (alphaAt t1 (X (origin t1) + tx) (Y (origin t1) + ty) = 0
            \<and> alphaAt t2 (X (origin t1) + tx) (Y (origin t1) + ty) = 0)"
  shows "pixelOk s t1 sx sy tol tx ty = pixelOk s t2 sx sy tol tx ty"
  using assms
  by (auto simp: pixelOk_def getRgbAndAlpha_def alphaAt_def Bounds_def split: prod.splits)

lemma hitAt_cong:
  assumes "origin t1 = origin t2" "width t1 = width t2" "height t1 = height t2"
    and "\<forall>x y. At t1 x y = At t2 x y \<or> (alphaAt t1 x y = 0 \<and> alphaAt t2 x y = 0)"
  shows "hitAt s t1 tol x y = hitAt s t2 tol x y"
proof -
  have "pixelOk s t1 sx sy tol tx ty = pixelOk s t2 sx sy tol tx ty" for sx sy tx ty
    using assms(1,4) by (intro pixelOk_cong) auto
  moreover have "Bounds t1 = Bounds t2"
    using assms(1-3) by (simp add: Bounds_def)
  ultimately show ?thesis
    by (simp add: hitAt_def quickCheck_eq_pixelOk match_def)
qed

lemma scanRow_cong:
  "Bounds t1 = Bounds t2 \<Longrightarrow> (\<forall>x. hitAt s t1 tol x y = hitAt s t2 tol x y) \<Longrightarrow>
     scanRow s t1 tol area y x = scanRow s t2 tol area y x"
proof (induction s t1 tol area y x rule: scanRow.induct)
  case (1 s t1 tol area y x)
  note unf = scanRow.simps [of s t1 tol area y x] scanRow.simps [of s t2 tol area y x]
  show ?case
  proof (cases "x \<le> X (Max_pt area) - Dx (Bounds t1)")
    case False
    with "1.prems" show ?thesis by (simp add: unf)
  next
    case inr: True
    show ?thesis
    proof (cases "hitAt s t1 tol x y")
      case True
      moreover from True "1.prems" have "hitAt s t2 tol x y" by simp
      ultimately show ?thesis
        using "1.IH"(1) [OF inr True "1.prems"] inr "1.prems"(1) by (simp add: unf)
    next
      case False
      moreover from False "1.prems" have "\<not> hitAt s t2 tol x y" by simp
      ultimately show ?thesis
        using "1.IH"(2) [OF inr False "1.prems"] inr "1.prems"(1) by (simp add: unf)
    qed
  qed
qed

lemma scanRows_cong:
  "Bounds t1 = Bounds t2 \<Longrightarrow> (\<forall>x y. hitAt s t1 tol x y = hitAt s t2 tol x y) \<Longrightarrow>
     scanRows s t1 tol area y = scanRows s t2 tol area y"
proof (induction s t1 tol area y rule: scanRows.induct)
  case (1 s t1 tol area y)
  note unf = scanRows.simps [of s t1 tol area y] scanRows.simps [of s t2 tol area y]
  have row: "scanRow s t1 tol area y x = scanRow s t2 tol area y x" for x
    using "1.prems" by (intro scanRow_cong) simp_all
  show ?case
  proof (cases "y \<le> Y (Max_pt area) - Dy (Bounds t1)")
    case False
    with "1.prems" show ?thesis by (simp add: unf)
  next
    case True
    with "1.IH" [OF True "1.prems"] "1.prems"(1) show ?thesis by (simp add: unf row)
  qed
qed

text \<open>
  C2. Two templates with the same bounds whose pixels are equal wherever they are not both
  transparent (alpha 0 as the matcher reads it) give the same list of matches on every
  frame and for every tolerance: the colour of a transparent pixel is never used.
\<close>

theorem transparent_pixels_ignored:
  assumes "origin t1 = origin t2" "width t1 = width t2" "height t1 = height t2"
    and "\<forall>x y. At t1 x y = At t2 x y \<or> (alphaAt t1 x y = 0 \<and> alphaAt t2 x y = 0)"
  shows "FindAllTemplates s t1 tol = FindAllTemplates s t2 tol"
proof -
  have "Bounds t1 = Bounds t2"
    using assms(1-3) by (simp add: Bounds_def)
  moreover have "\<forall>x y. hitAt s t1 tol x y = hitAt s t2 tol x y"
    using hitAt_cong [OF assms] by simp
  ultimately show ?thesis
    unfolding FindAllTemplates_def by (rule scanRows_cong)
qed

text \<open>
  The second pixel of \<open>tmplClear\<close> is transparent; \<open>tmplClearRed\<close> recolours it red.
\<close>

theorem transparent_pixels_ignored_witness:
  "origin tmplClear = origin tmplClearRed \<and> width tmplClear = width tmplClearRed
   \<and> height tmplClear = height tmplClearRed
   \<and> (\<forall>x y. At tmplClear x y = At tmplClearRed x y
             \<or> (alphaAt tmplClear x y = 0 \<and> alphaAt tmplClearRed x y = 0))
   \<and> At tmplClear 1 0 \<noteq> At tmplClearRed 1 0
   \<and> FindAllTemplates frameB tmplClear 60 = FindAllTemplates frameB tmplClearRed 60
   \<and> FindAllTemplates frameB tmplClear 60 = [\<lparr>X = 0, Y = 0\<rparr>]"
proof -
  have h: "origin tmplClear = origin tmplClearRed" "width tmplClear = width tmplClearRed"
    "height tmplClear = height tmplClearRed"
    by (simp_all add: tmplClear_def tmplClearRed_def)
  have a: "\<forall>x y. At tmplClear x y = At tmplClearRed x y
             \<or> (alphaAt tmplClear x y = 0 \<and> alphaAt tmplClearRed x y = 0)"
    by (simp add: tmplClear_def tmplClearRed_def alphaAt_def getRgbAndAlpha_def blackPx_def noPx_def)
  have d: "At tmplClear 1 0 \<noteq> At tmplClearRed 1 0"
    by (simp add: tmplClear_def tmplClearRed_def noPx_def)
  have v: "FindAllTemplates frameB tmplClear 60 = [\<lparr>X = 0, Y = 0\<rparr>]"
    by (simp add: matcher_eval frameB_def tmplClear_def)
  from transparent_pixels_ignored [OF h a, of frameB 60] h a d v show ?thesis by simp
qed

section \<open>Searching inside a region\<close>

text \<open>
  C8, as the code has it. \<open>FindAllTemplatesInROI\<close> is the full-frame search exactly when
  the region is empty. For a non-empty region it returns no match when the region does not
  meet the frame, and no match when the part of the region inside the frame is narrower or
  lower than the template.
\<close>

theorem FindAllTemplatesInROI_fallback:
  "(Empty roi \<longrightarrow> FindAllTemplatesInROI s t roi tol = FindAllTemplates s t tol)
   \<and> (\<not> Empty roi \<and> Empty (Intersect roi (Bounds s)) \<longrightarrow> FindAllTemplatesInROI s t roi tol = [])
   \<and> (\<not> Empty roi \<and> (Dx (Intersect roi (Bounds s)) < Dx (Bounds t) \<or> Dy (Intersect roi (Bounds s)) < Dy (Bounds t))
        \<longrightarrow> FindAllTemplatesInROI s t roi tol = [])"
  by (simp add: FindAllTemplatesInROI_def Let_def)

theorem FindAllTemplatesInROI_fallback_witness:
  "Empty ZR \<and> FindAllTemplatesInROI frameB tmplB ZR 60 = FindAllTemplates frameB tmplB 60
   \<and> \<not> Empty roiFar \<and> Empty (Intersect roiFar (Bounds frameB))
   \<and> FindAllTemplatesInROI frameB tmplB roiFar 60 = []
   \<and> \<not> Empty roiNarrow \<and> Dx (Intersect roiNarrow (Bounds frameB)) < Dx (Bounds tmplB)
   \<and> FindAllTemplatesInROI frameB tmplB roiNarrow 60 = []"
proof -
  have e: "Empty ZR"
    by (simp add: Empty_def ZR_def)
  have f: "\<not> Empty roiFar" "Empty (Intersect roiFar (Bounds frameB))"
    by (simp_all add: Empty_def Intersect_def ZR_def roiFar_def Bounds_def frameB_def)
  have n: "\<not> Empty roiNarrow" "Dx (Intersect roiNarrow (Bounds frameB)) < Dx (Bounds tmplB)"
    by (simp_all add: Empty_def Intersect_def ZR_def roiNarrow_def Bounds_def Dx_def frameB_def tmplB_def)
  from FindAllTemplatesInROI_fallback [of ZR frameB tmplB 60]
    FindAllTemplatesInROI_fallback [of roiFar frameB tmplB 60]
    FindAllTemplatesInROI_fallback [of roiNarrow frameB tmplB 60] e f n
  show ?thesis by simp
qed

text \<open>
  The claim as stated fails: a non-empty region that does not meet the frame gives no
  match, while the full-frame search finds the template.
\<close>

theorem FindAllTemplatesInROI_counterexample:
  "\<not> Empty roiFar \<and> Empty (Intersect roiFar (Bounds frameB))
   \<and> FindAllTemplatesInROI frameB tmplB roiFar 60 = []
   \<and> FindAllTemplates frameB tmplB 60 = [\<lparr>X = 0, Y = 0\<rparr>]"
  by (simp add: FindAllTemplatesInROI_def Empty_def Intersect_def ZR_def roiFar_def matcher_eval frameB_def tmplB_def)

section \<open>The earlier and the later FindTemplate\<close>

lemma match_old_iff:
  "match_old s t sx sy tol \<longleftrightarrow>
     (\<forall>ty < height t. \<forall>tx < width t. pixelOk_old s t sx sy tol (int tx) (int ty))"
  by (auto simp: match_old_def list_all_iff Dx_def Dy_def Bounds_def)

lemma pixelOk_old_eq:
  assumes "alphaAt t (X (origin t) + tx) (Y (origin t) + ty) \<noteq> 0"
  shows "pixelOk_old s t sx sy tol tx ty = pixelOk s t sx sy tol tx ty"
  using assms
  by (auto simp: pixelOk_old_def pixelOk_def getRgb_def getRgbAndAlpha_def alphaAt_def Bounds_def
           split: prod.splits)

lemma opaqueD:
  "opaque t \<Longrightarrow> tx < width t \<Longrightarrow> ty < height t \<Longrightarrow>
     alphaAt t (X (origin t) + int tx) (Y (origin t) + int ty) \<noteq> 0"
  unfolding opaque_def by simp

lemma match_old_eq:
  assumes "opaque t"
  shows "match_old s t sx sy tol = match s t sx sy tol"
  unfolding match_old_iff match_iff
  using pixelOk_old_eq [OF opaqueD [OF assms]] by auto

lemma hitAt_old_eq:
  assumes ne: "0 < width t" "0 < height t" and o: "opaque t"
  shows "hitAt_old s t tol x y = hitAt s t tol x y"
proof -
  have "match_old s t x y tol \<Longrightarrow> pixelOk_old s t x y tol 0 0"
    using ne by (auto simp: match_old_iff dest!: spec [of _ 0])
  then show ?thesis
    by (auto simp: hitAt_old_def hitAt_eq_match [OF ne] match_old_eq [OF o])
qed

lemma findRow_old_scanRow:
  "(\<forall>x. hitAt_old s t tol x y = hitAt s t tol x y) \<Longrightarrow>
     findRow_old s t tol y x = (case scanRow s t tol (Bounds s) y x of [] \<Rightarrow> None | p # ps \<Rightarrow> Some p)"
proof (induction s t tol y x rule: findRow_old.induct)
  case (1 s t tol y x)
  note unf = findRow_old.simps [of s t tol y x] scanRow.simps [of s t tol "Bounds s" y x]
  show ?case
  proof (cases "x \<le> X (Max_pt (Bounds s)) - Dx (Bounds t)")
    case False
    then show ?thesis by (simp add: unf)
  next
    case inr: True
    show ?thesis
    proof (cases "hitAt_old s t tol x y")
      case True
      moreover from True "1.prems" have "hitAt s t tol x y" by simp
      ultimately show ?thesis using inr by (simp add: unf)
    next
      case False
      moreover from False "1.prems" have "\<not> hitAt s t tol x y" by simp
      ultimately show ?thesis using "1.IH" [OF inr False "1.prems"] inr by (simp add: unf)
    qed
  qed
qed

lemma findRows_old_scanRows:
  "(\<forall>x y. hitAt_old s t tol x y = hitAt s t tol x y) \<Longrightarrow>
     findRows_old s t tol y = (case scanRows s t tol (Bounds s) y of [] \<Rightarrow> None | p # ps \<Rightarrow> Some p)"
proof (induction s t tol y rule: findRows_old.induct)
  case (1 s t tol y)
  note unf = findRows_old.simps [of s t tol y] scanRows.simps [of s t tol "Bounds s" y]
  from "1.prems" have row: "findRow_old s t tol y x
      = (case scanRow s t tol (Bounds s) y x of [] \<Rightarrow> None | p # ps \<Rightarrow> Some p)" for x
    by (intro findRow_old_scanRow) simp
  show ?case
  proof (cases "y \<le> Y (Max_pt (Bounds s)) - Dy (Bounds t)")
    case False
    then show ?thesis by (simp add: unf)
  next
    case inr: True
    show ?thesis
    proof (cases "scanRow s t tol (Bounds s) y (X (Min_pt (Bounds s)))")
      case Nil
      then have "findRow_old s t tol y (X (Min_pt (Bounds s))) = None" by (simp add: row)
      with "1.IH" [OF inr this "1.prems"] inr Nil show ?thesis by (simp add: unf)
    next
      case (Cons p ps)
      then have "findRow_old s t tol y (X (Min_pt (Bounds s))) = Some p" by (simp add: row)
      with inr Cons show ?thesis by (simp add: unf)
    qed
  qed
qed

text \<open>
  C10, as the code has it. For every frame and every opaque template with at least one
  pixel, the earlier \<open>FindTemplate\<close> and the later one (the first element of
  \<open>FindAllTemplates\<close>) return the same triple.
\<close>

theorem FindTemplate_old_eq_new:
  assumes "0 < width t" "0 < height t" "opaque t"
  shows "FindTemplate_old s t tol = FindTemplate s t tol"
proof (cases "Dx (Bounds s) < Dx (Bounds t) \<or> Dy (Bounds s) < Dy (Bounds t)")
  case True
  then show ?thesis
    by (simp add: FindTemplate_old_def FindTemplate_def FindAllTemplates_small_frame Let_def)
next
  case False
  have "findRows_old s t tol (Y (Min_pt (Bounds s)))
          = (case FindAllTemplates s t tol of [] \<Rightarrow> None | p # ps \<Rightarrow> Some p)"
    unfolding FindAllTemplates_def
    by (intro findRows_old_scanRows) (simp add: hitAt_old_eq [OF assms])
  with False show ?thesis
    by (simp add: FindTemplate_old_def FindTemplate_def Let_def split: list.splits)
qed

theorem FindTemplate_old_eq_new_witness:
  "0 < width tmplB \<and> 0 < height tmplB \<and> opaque tmplB
   \<and> FindTemplate_old frameB tmplB 60 = FindTemplate frameB tmplB 60
   \<and> FindTemplate frameB tmplB 60 = (0, 0, True)"
proof -
  have h: "0 < width tmplB" "0 < height tmplB" "opaque tmplB"
    by (simp_all add: opaque_def alphaAt_def matcher_eval tmplB_def)
  have v: "FindTemplate frameB tmplB 60 = (0, 0, True)"
    by (simp add: FindTemplate_def matcher_eval frameB_def tmplB_def)
  from FindTemplate_old_eq_new [OF h, of frameB 60] h v show ?thesis
    by simp
qed

text \<open>
  The claim as stated fails for a template without pixels, which is opaque vacuously: both
  variants read the template's pixel at its corner, outside the bounds. The earlier one
  compares the frame with it and rejects the white pixel at \<open>(0, 0)\<close>; the later one sees
  alpha 0, skips the check and accepts \<open>(0, 0)\<close>.
\<close>

theorem FindTemplate_empty_template_counterexample:
  "opaque tmplEmpty \<and> FindTemplate_old frameWB tmplEmpty 60 = (1, 0, True)
   \<and> FindTemplate frameWB tmplEmpty 60 = (0, 0, True)"
  by (simp add: opaque_def FindTemplate_old_def FindTemplate_def findRows_old.simps findRow_old.simps
        hitAt_old_def match_old_def pixelOk_old_def getRgb_def matcher_eval frameWB_def tmplEmpty_def)

section \<open>The entity key\<close>

lemma digitChar_mem: "n < 10 \<Longrightarrow> digitChar n \<in> set ''0123456789''"
  unfolding digitChar_def by (rule nth_mem) simp

lemma digitChar_inj: "n < 10 \<Longrightarrow> m < 10 \<Longrightarrow> digitChar n = digitChar m \<Longrightarrow> n = m"
proof -
  assume a: "n < 10" "m < 10" "digitChar n = digitChar m"
  have "distinct ''0123456789''" by simp
  from nth_eq_iff_index_eq [OF this, of n m] a show "n = m"
    by (simp add: digitChar_def)
qed

lemma Itoa_nat_digits: "set (Itoa_nat n) \<subseteq> set ''0123456789''"
proof (induction n rule: Itoa_nat.induct)
  case (1 n)
  show ?case
  proof (cases "n < 10")
    case True
    then show ?thesis
      using digitChar_mem [of n] by (simp add: Itoa_nat.simps [of n])
  next
    case False
    have "n mod 10 < 10" by simp
    with "1.IH" [OF False] False show ?thesis
      using digitChar_mem [of "n mod 10"] by (simp add: Itoa_nat.simps [of n])
  qed
qed

lemma Itoa_nat_nonempty: "Itoa_nat n \<noteq> []"
  by (simp add: Itoa_nat.simps [of n])

lemma Itoa_nat_inj: "Itoa_nat n = Itoa_nat m \<Longrightarrow> n = m"
proof (induction n arbitrary: m rule: Itoa_nat.induct)
  case (1 n)
  show ?case
  proof (cases "n < 10")
    case n: True
    show ?thesis
    proof (cases "m < 10")
      case True
      with n "1.prems" show ?thesis
        by (simp add: Itoa_nat.simps [of n] Itoa_nat.simps [of m] digitChar_inj)
    next
      case False
      with n "1.prems" Itoa_nat_nonempty [of "m div 10"] show ?thesis
        by (simp add: Itoa_nat.simps [of n] Itoa_nat.simps [of m])
    qed
  next
    case n: False
    show ?thesis
    proof (cases "m < 10")
      case True
      with n "1.prems" Itoa_nat_nonempty [of "n div 10"] show ?thesis
        by (simp add: Itoa_nat.simps [of n] Itoa_nat.simps [of m])
    next
      case False
      with n "1.prems" have e: "Itoa_nat (n div 10) = Itoa_nat (m div 10)"
        "digitChar (n mod 10) = digitChar (m mod 10)"
        by (simp_all add: Itoa_nat.simps [of n] Itoa_nat.simps [of m])
      from "1.IH" [OF n e(1)] have "n div 10 = m div 10" .
      moreover from e(2) have "n mod 10 = m mod 10" by (intro digitChar_inj) simp_all
      ultimately show ?thesis by (metis div_mult_mod_eq)
    qed
  qed
qed

lemma Itoa_inj: "Itoa i = Itoa j \<Longrightarrow> i = j"
proof -
  assume a: "Itoa i = Itoa j"
  have nd: "CHR ''-'' \<notin> set (Itoa_nat k)" for k
    using Itoa_nat_digits [of k] by auto
  have hd: "Itoa_nat k \<noteq> CHR ''-'' # r" for k r
    using nd [of k] by (metis list.set_intros(1))
  show "i = j"
  proof (cases "i < 0")
    case i: True
    show ?thesis
    proof (cases "j < 0")
      case True
      with i a have "nat (- i) = nat (- j)" by (simp add: Itoa_def Itoa_nat_inj)
      with i True show ?thesis by simp
    next
      case False
      with i a have "Itoa_nat (nat j) = CHR ''-'' # Itoa_nat (nat (- i))" by (simp add: Itoa_def)
      with hd show ?thesis by blast
    qed
  next
    case i: False
    show ?thesis
    proof (cases "j < 0")
      case True
      with i a have "Itoa_nat (nat i) = CHR ''-'' # Itoa_nat (nat (- j))" by (simp add: Itoa_def)
      with hd show ?thesis by blast
    next
      case False
      with i a have "nat i = nat j" by (simp add: Itoa_def Itoa_nat_inj)
      with i False show ?thesis by simp
    qed
  qed
qed

lemma Itoa_no_sep: "CHR ''_'' \<notin> set (Itoa i)"
  using Itoa_nat_digits [of "nat i"] Itoa_nat_digits [of "nat (- i)"]
  by (auto simp: Itoa_def)

lemma split_at_sep:
  "c \<notin> set a \<Longrightarrow> c \<notin> set a' \<Longrightarrow> a @ c # r = a' @ c # r' \<Longrightarrow> a = a' \<and> r = r'"
proof (induction a arbitrary: a')
  case Nil
  then show ?case by (cases a') auto
next
  case (Cons x a)
  then show ?case by (cases a') auto
qed

lemma key_inj:
  assumes "Itoa p @ ''_'' @ Itoa x @ ''_'' @ Itoa y = Itoa p' @ ''_'' @ Itoa x' @ ''_'' @ Itoa y'"
  shows "p = p' \<and> x = x' \<and> y = y'"
proof -
  from assms have "Itoa p @ CHR ''_'' # (Itoa x @ CHR ''_'' # Itoa y)
                 = Itoa p' @ CHR ''_'' # (Itoa x' @ CHR ''_'' # Itoa y')" by simp
  from split_at_sep [OF Itoa_no_sep Itoa_no_sep this]
  have p: "Itoa p = Itoa p'" and r: "Itoa x @ CHR ''_'' # Itoa y = Itoa x' @ CHR ''_'' # Itoa y'"
    by simp_all
  from split_at_sep [OF Itoa_no_sep Itoa_no_sep r] have "Itoa x = Itoa x'" "Itoa y = Itoa y'"
    by simp_all
  with p show ?thesis by (simp add: Itoa_inj)
qed

lemma entityKey_eq_iff:
  assumes "positionThresh t \<noteq> 0"
  shows "entityKey t e1 = entityKey t e2 \<longleftrightarrow>
           Priority e1 = Priority e2
           \<and> tdiv (X (Position e1)) (positionThresh t) = tdiv (X (Position e2)) (positionThresh t)
           \<and> tdiv (Y (Position e1)) (positionThresh t) = tdiv (Y (Position e2)) (positionThresh t)"
proof
  assume "entityKey t e1 = entityKey t e2"
  from key_inj [OF this [unfolded entityKey_def Let_def]] assms
  show "Priority e1 = Priority e2
           \<and> tdiv (X (Position e1)) (positionThresh t) = tdiv (X (Position e2)) (positionThresh t)
           \<and> tdiv (Y (Position e1)) (positionThresh t) = tdiv (Y (Position e2)) (positionThresh t)"
    by simp
next
  assume "Priority e1 = Priority e2
           \<and> tdiv (X (Position e1)) (positionThresh t) = tdiv (X (Position e2)) (positionThresh t)
           \<and> tdiv (Y (Position e1)) (positionThresh t) = tdiv (Y (Position e2)) (positionThresh t)"
  then show "entityKey t e1 = entityKey t e2"
    by (simp add: entityKey_def)
qed

lemma tdiv_cell:
  assumes "0 < q" "0 \<le> k" "k * q \<le> x" "x < (k + 1) * q"
  shows "tdiv x q = k"
proof -
  have "0 \<le> k * q" using assms(1,2) by simp
  with assms(3) have x: "0 \<le> x" by linarith
  have "x = q * k + (x - k * q)" by (simp add: mult.commute)
  moreover have "0 \<le> x - k * q" using assms(3) by simp
  moreover have "x - k * q < q" using assms(4) by (simp add: algebra_simps)
  ultimately have "x div q = k" by (rule int_div_pos_eq)
  with x assms(1) show ?thesis by (simp add: tdiv_def)
qed

text \<open>Unfolding rules that evaluate a key.\<close>

lemmas key_eval = entityKey_def tdiv_def Itoa_def Itoa_nat.simps digitChar_def Let_def

text \<open>
  C7, as the code has it. Two detections get the same key exactly when they have the same
  priority and their positions have the same truncated quotient by the quantization unit
  in both axes, that is, lie in the same cell of the grid. In particular two positions in
  the cell \<open>[k * unit, (k + 1) * unit)\<close> by \<open>[l * unit, (l + 1) * unit)\<close> get the same key.
\<close>

theorem entityKey_same_cell:
  assumes "0 < positionThresh t"
  shows "(entityKey t e1 = entityKey t e2 \<longleftrightarrow>
            Priority e1 = Priority e2
            \<and> tdiv (X (Position e1)) (positionThresh t) = tdiv (X (Position e2)) (positionThresh t)
            \<and> tdiv (Y (Position e1)) (positionThresh t) = tdiv (Y (Position e2)) (positionThresh t))
       \<and> (\<forall>k l. 0 \<le> k \<and> 0 \<le> l \<and> Priority e1 = Priority e2
              \<and> k * positionThresh t \<le> X (Position e1) \<and> X (Position e1) < (k + 1) * positionThresh t
              \<and> k * positionThresh t \<le> X (Position e2) \<and> X (Position e2) < (k + 1) * positionThresh t
              \<and> l * positionThresh t \<le> Y (Position e1) \<and> Y (Position e1) < (l + 1) * positionThresh t
              \<and> l * positionThresh t \<le> Y (Position e2) \<and> Y (Position e2) < (l + 1) * positionThresh t
              \<longrightarrow> entityKey t e1 = entityKey t e2)"
proof -
  from assms have nz: "positionThresh t \<noteq> 0" by simp
  show ?thesis
  proof (intro conjI allI impI)
    show "entityKey t e1 = entityKey t e2 \<longleftrightarrow>
            Priority e1 = Priority e2
            \<and> tdiv (X (Position e1)) (positionThresh t) = tdiv (X (Position e2)) (positionThresh t)
            \<and> tdiv (Y (Position e1)) (positionThresh t) = tdiv (Y (Position e2)) (positionThresh t)"
      by (rule entityKey_eq_iff [OF nz])
  next
    fix k l
    assume a: "0 \<le> k \<and> 0 \<le> l \<and> Priority e1 = Priority e2
              \<and> k * positionThresh t \<le> X (Position e1) \<and> X (Position e1) < (k + 1) * positionThresh t
              \<and> k * positionThresh t \<le> X (Position e2) \<and> X (Position e2) < (k + 1) * positionThresh t
              \<and> l * positionThresh t \<le> Y (Position e1) \<and> Y (Position e1) < (l + 1) * positionThresh t
              \<and> l * positionThresh t \<le> Y (Position e2) \<and> Y (Position e2) < (l + 1) * positionThresh t"
    then have "tdiv (X (Position e1)) (positionThresh t) = k" "tdiv (X (Position e2)) (positionThresh t) = k"
      "tdiv (Y (Position e1)) (positionThresh t) = l" "tdiv (Y (Position e2)) (positionThresh t) = l"
      using tdiv_cell [OF assms] by blast+
    with a show "entityKey t e1 = entityKey t e2"
      by (simp add: entityKey_eq_iff [OF nz])
  qed
qed

theorem entityKey_same_cell_witness:
  "0 < positionThresh NewEntityTracker
   \<and> (0::int) \<le> 1 \<and> (0::int) \<le> 2 \<and> Priority entC = Priority entD
   \<and> 1 * positionThresh NewEntityTracker \<le> X (Position entC)
   \<and> X (Position entC) < (1 + 1) * positionThresh NewEntityTracker
   \<and> 1 * positionThresh NewEntityTracker \<le> X (Position entD)
   \<and> X (Position entD) < (1 + 1) * positionThresh NewEntityTracker
   \<and> 2 * positionThresh NewEntityTracker \<le> Y (Position entC)
   \<and> Y (Position entC) < (2 + 1) * positionThresh NewEntityTracker
   \<and> 2 * positionThresh NewEntityTracker \<le> Y (Position entD)
   \<and> Y (Position entD) < (2 + 1) * positionThresh NewEntityTracker
   \<and> entityKey NewEntityTracker entC = entityKey NewEntityTracker entD
   \<and> entityKey NewEntityTracker entC = ''20_20_40''"
proof -
  have p: "0 < positionThresh NewEntityTracker"
    by (simp add: NewEntityTracker_def)
  have c: "(0::int) \<le> 1 \<and> (0::int) \<le> 2 \<and> Priority entC = Priority entD
   \<and> 1 * positionThresh NewEntityTracker \<le> X (Position entC)
   \<and> X (Position entC) < (1 + 1) * positionThresh NewEntityTracker
   \<and> 1 * positionThresh NewEntityTracker \<le> X (Position entD)
   \<and> X (Position entD) < (1 + 1) * positionThresh NewEntityTracker
   \<and> 2 * positionThresh NewEntityTracker \<le> Y (Position entC)
   \<and> Y (Position entC) < (2 + 1) * positionThresh NewEntityTracker
   \<and> 2 * positionThresh NewEntityTracker \<le> Y (Position entD)
   \<and> Y (Position entD) < (2 + 1) * positionThresh NewEntityTracker"
    by (simp add: NewEntityTracker_def entC_def entD_def)
  have v: "entityKey NewEntityTracker entC = ''20_20_40''"
    by (simp add: key_eval NewEntityTracker_def entC_def)
  from entityKey_same_cell [OF p, of entC entD] have
    "\<forall>k l. 0 \<le> k \<and> 0 \<le> l \<and> Priority entC = Priority entD
              \<and> k * positionThresh NewEntityTracker \<le> X (Position entC) \<and> X (Position entC) < (k + 1) * positionThresh NewEntityTracker
              \<and> k * positionThresh NewEntityTracker \<le> X (Position entD) \<and> X (Position entD) < (k + 1) * positionThresh NewEntityTracker
              \<and> l * positionThresh NewEntityTracker \<le> Y (Position entC) \<and> Y (Position entC) < (l + 1) * positionThresh NewEntityTracker
              \<and> l * positionThresh NewEntityTracker \<le> Y (Position entD) \<and> Y (Position entD) < (l + 1) * positionThresh NewEntityTracker
              \<longrightarrow> entityKey NewEntityTracker entC = entityKey NewEntityTracker entD"
    by (rule conjunct2)
  then have "entityKey NewEntityTracker entC = entityKey NewEntityTracker entD"
    using c by blast
  with p c v show ?thesis by blast
qed

text \<open>
  The claim as stated fails: \<open>x = 19\<close> and \<open>x = 20\<close> are one pixel apart and lie in
  different cells.
\<close>

theorem entityKey_jitter_counterexample:
  "Priority entA = Priority entB
   \<and> \<bar>X (Position entA) - X (Position entB)\<bar> \<le> positionThresh NewEntityTracker
   \<and> \<bar>Y (Position entA) - Y (Position entB)\<bar> \<le> positionThresh NewEntityTracker
   \<and> entityKey NewEntityTracker entA \<noteq> entityKey NewEntityTracker entB"
  by (simp add: key_eval NewEntityTracker_def entA_def entB_def)

section \<open>Clicks and the blacklist\<close>

lemma entityKey_cong:
  "positionThresh t' = positionThresh t \<Longrightarrow> entityKey t' e = entityKey t e"
  by (simp add: entityKey_def)









lemma runCalls_Click:
  "snd (runCalls t (CallRecordClick now e # cs)) = snd (runCalls (snd (RecordClick t now e)) cs)"
  "fst (runCalls t (CallRecordClick now e # cs))
     = fst (RecordClick t now e) # fst (runCalls (snd (RecordClick t now e)) cs)"
  by (simp_all add: case_prod_beta)











text \<open>Unfolding rules that evaluate a run of calls on a concrete tracker.\<close>

lemmas tracker_eval =
  RecordClick_def IsBlacklisted_def clicksAt_def NewEntityTracker_def key_eval

lemma runCalls_fst_snd:
  "fst (runCalls t []) = []" "snd (runCalls t []) = t"
  "fst (runCalls t (CallUpdate now order detected # cs)) = fst (runCalls (Update t now order detected) cs)"
  "snd (runCalls t (CallUpdate now order detected # cs)) = snd (runCalls (Update t now order detected) cs)"
  by simp_all

lemmas run_eval =
  runCalls_Click runCalls_fst_snd clicksOn_def isClickOn_def Update_def reconcile1_def expire_def
  isMovedMatch_def orderA_def entA_def entA2_def entA3_def tracker_eval


text \<open>
  The claim as stated fails when \<open>Update\<close> is called between the clicks, as the bot does
  before every click. In \<open>callsExpire\<close> the entity is not detected for longer than the TTL
  after the sixth click: \<open>Update\<close> removes it with its click count, the seventh
  \<open>RecordClick\<close> on the key returns false and the key is not blacklisted. In \<open>callsMoved\<close>
  the key is blacklisted by seven clicks, and the next \<open>Update\<close> detects the entity 20
  pixels lower: the blacklist entry moves to the new key and the old key is no longer
  blacklisted.
\<close>

theorem blacklist_after_maxClicks_counterexample:
  "clicksOn NewEntityTracker ''20_0_0'' callsExpire = maxClicks NewEntityTracker
   \<and> entityKey NewEntityTracker entA = ''20_0_0''
   \<and> fst (runCalls NewEntityTracker callsExpire) = [False, False, False, False, False, False, False]
   \<and> \<not> IsBlacklisted (snd (runCalls NewEntityTracker callsExpire)) entA
   \<and> clicksOn NewEntityTracker ''20_0_0'' clicks7 = maxClicks NewEntityTracker
   \<and> IsBlacklisted (snd (runCalls NewEntityTracker clicks7)) entA
   \<and> \<not> IsBlacklisted (snd (runCalls NewEntityTracker callsMoved)) entA"
  by (simp add: run_eval callsExpire_def callsMoved_def clicks7_def del: runCalls.simps)

section \<open>Update: reconciliation and expiry\<close>

lemma Itoa_values: "Itoa 100 = ''100''" "Itoa 500 = ''500''" "Itoa 340 = ''340''"
  by (simp_all add: Itoa_def Itoa_nat.simps digitChar_def)

lemma entityKey_at_100_500:
  "positionThresh t = 20 \<Longrightarrow> Position e = \<lparr>X = 100, Y = 500\<rparr> \<Longrightarrow>
     entityKey t e = Itoa (Priority e) @ ''_100_500''"
  by (simp add: entityKey_def tdiv_def Itoa_values)

lemma entityKey_at_105_350:
  "positionThresh t = 20 \<Longrightarrow> Position e = \<lparr>X = 105, Y = 350\<rparr> \<Longrightarrow>
     entityKey t e = Itoa (Priority e) @ ''_100_340''"
  by (simp add: entityKey_def tdiv_def Itoa_values)

lemma findMovedEntity_unique:
  assumes "entities t k = Some tr" "isMovedMatch t (Entity tr) d"
    and "\<forall>k' tr'. entities t k' = Some tr' \<and> k' \<noteq> k \<longrightarrow> \<not> isMovedMatch t (Entity tr') d"
  shows "k \<in> set keys \<Longrightarrow> findMovedEntity t d keys = k"
proof (induction keys)
  case Nil
  then show ?case by simp
next
  case (Cons key keys)
  show ?case
  proof (cases "key = k")
    case True
    with assms(1,2) show ?thesis by simp
  next
    case False
    with Cons.prems have "k \<in> set keys" by simp
    from Cons.IH [OF this] False assms(3) show ?thesis
      by (auto split: option.splits)
  qed
qed

lemma findMovedEntity_sound:
  "findMovedEntity t d keys = k \<Longrightarrow> k \<noteq> '''' \<Longrightarrow>
     \<exists>tr. entities t k = Some tr \<and> isMovedMatch t (Entity tr) d"
proof (induction keys)
  case Nil
  then show ?case by simp
next
  case (Cons key keys)
  show ?case
  proof (cases "entities t key")
    case None
    with Cons show ?thesis by simp
  next
    case (Some tracked)
    show ?thesis
    proof (cases "isMovedMatch t (Entity tracked) d")
      case True
      with Some Cons.prems show ?thesis by auto
    next
      case False
      with Some Cons show ?thesis by simp
    qed
  qed
qed

lemma isMovedMatch_cong:
  "positionThresh t' = positionThresh t \<Longrightarrow> isMovedMatch t' e d = isMovedMatch t e d"
  by (simp add: isMovedMatch_def)

lemma entityKey_fun_cong:
  "positionThresh t' = positionThresh t \<Longrightarrow> entityKey t' = entityKey t"
  by (rule ext) (simp add: entityKey_def)

lemma reconcile1_cases:
  assumes "reconcile1 now ks d (t, seen) = (t1, seen1)"
  shows "positionThresh t1 = positionThresh t \<and> ttl t1 = ttl t \<and> seen1 = insert (entityKey t d) seen
       \<and> (\<forall>ex. entities t (entityKey t d) = Some ex \<longrightarrow>
              entities t1 = (entities t)(entityKey t d \<mapsto> ex\<lparr>LastSeen := now, Entity := d\<rparr>))
       \<and> (entities t (entityKey t d) = None \<longrightarrow>
              (\<exists>new. entities t1 (entityKey t d) = Some new \<and> Entity new = d \<and> LastSeen new = now))
       \<and> (\<forall>k. k \<noteq> entityKey t d \<longrightarrow>
              entities t1 k = entities t k
              \<or> (entities t (entityKey t d) = None \<and> entities t1 k = None
                  \<and> (\<exists>tr. entities t k = Some tr \<and> isMovedMatch t (Entity tr) d)))"
proof (cases "entities t (entityKey t d)")
  case (Some ex)
  with assms show ?thesis
    by (auto simp: reconcile1_def Let_def)
next
  case None
  show ?thesis
  proof (cases "findMovedEntity t d ks = ''''")
    case True
    with None assms show ?thesis
      by (auto simp: reconcile1_def Let_def)
  next
    case False
    from findMovedEntity_sound [OF refl False]
    obtain tr where tr: "entities t (findMovedEntity t d ks) = Some tr"
      "isMovedMatch t (Entity tr) d" by blast
    show ?thesis
    proof (cases "blacklist t (findMovedEntity t d ks)")
      case bn: None
      with None False tr assms show ?thesis
        by (auto simp: reconcile1_def Let_def split: if_splits)
    next
      case (Some stamp)
      with None False tr assms show ?thesis
        by (auto simp: reconcile1_def Let_def split: if_splits)
    qed
  qed
qed

lemma reconcile_other_key:
  "k \<notin> entityKey t ` set ds \<Longrightarrow> reconcile now order i ds (t, seen) = (t', seen') \<Longrightarrow>
     positionThresh t' = positionThresh t \<and> ttl t' = ttl t \<and> (k \<in> seen' \<longleftrightarrow> k \<in> seen)
     \<and> (entities t' k = entities t k
         \<or> (entities t' k = None
             \<and> (\<exists>tr d. entities t k = Some tr \<and> d \<in> set ds \<and> isMovedMatch t (Entity tr) d)))"
proof (induction ds arbitrary: t seen i)
  case Nil
  then show ?case by simp
next
  case (Cons d ds)
  obtain t1 seen1 where r1: "reconcile1 now (order i) d (t, seen) = (t1, seen1)"
    by (cases "reconcile1 now (order i) d (t, seen)")
  note c = reconcile1_cases [OF r1]
  from c have pt: "positionThresh t1 = positionThresh t" and tt: "ttl t1 = ttl t"
    and s1: "seen1 = insert (entityKey t d) seen" by simp_all
  from Cons.prems(2) r1 have rest: "reconcile now order (Suc i) ds (t1, seen1) = (t', seen')"
    by simp
  from Cons.prems(1) have kd: "k \<noteq> entityKey t d" and kr: "k \<notin> entityKey t ` set ds"
    by auto
  from kr have k1: "k \<notin> entityKey t1 ` set ds"
    by (simp add: entityKey_fun_cong [OF pt])
  from Cons.IH [OF k1 rest]
  have ih: "positionThresh t' = positionThresh t1" "ttl t' = ttl t1" "k \<in> seen' \<longleftrightarrow> k \<in> seen1"
    "entities t' k = entities t1 k
     \<or> (entities t' k = None
         \<and> (\<exists>tr d. entities t1 k = Some tr \<and> d \<in> set ds \<and> isMovedMatch t1 (Entity tr) d))"
    by simp_all
  from c kd have step: "entities t1 k = entities t k
      \<or> (entities t1 k = None \<and> (\<exists>tr. entities t k = Some tr \<and> isMovedMatch t (Entity tr) d))"
    by blast
  have ent: "entities t' k = entities t k
         \<or> (entities t' k = None
             \<and> (\<exists>tr d'. entities t k = Some tr \<and> d' \<in> set (d # ds) \<and> isMovedMatch t (Entity tr) d'))"
    using ih(4)
  proof
    assume e: "entities t' k = entities t1 k"
    from step show ?thesis
    proof
      assume "entities t1 k = entities t k"
      with e show ?thesis by simp
    next
      assume "entities t1 k = None \<and> (\<exists>tr. entities t k = Some tr \<and> isMovedMatch t (Entity tr) d)"
      with e show ?thesis by auto
    qed
  next
    assume m: "entities t' k = None
         \<and> (\<exists>tr d. entities t1 k = Some tr \<and> d \<in> set ds \<and> isMovedMatch t1 (Entity tr) d)"
    then obtain tr d' where w: "entities t1 k = Some tr" "d' \<in> set ds" "isMovedMatch t1 (Entity tr) d'"
      by blast
    from w(1) step have "entities t k = Some tr" by auto
    moreover from w(3) have "isMovedMatch t (Entity tr) d'" by (simp add: isMovedMatch_cong [OF pt])
    ultimately show ?thesis using m w(2) by auto
  qed
  from ih(1,2,3) pt tt s1 kd ent show ?case by simp
qed

lemma reconcile_safe_key:
  "\<forall>e \<in> S. \<forall>d \<in> set ds. entityKey t d \<noteq> k \<longrightarrow> \<not> isMovedMatch t e d \<Longrightarrow>
   \<forall>d \<in> set ds. entityKey t d = k \<longrightarrow> d \<in> S \<Longrightarrow>
   entities t k = Some tr \<Longrightarrow> Entity tr \<in> S \<Longrightarrow>
   reconcile now order i ds (t, seen) = (t', seen') \<Longrightarrow>
     \<exists>tr'. entities t' k = Some tr' \<and> ClickCount tr' = ClickCount tr \<and> FirstSeen tr' = FirstSeen tr
       \<and> (k \<in> entityKey t ` set ds \<longrightarrow> LastSeen tr' = now \<and> k \<in> seen')
       \<and> (k \<notin> entityKey t ` set ds \<longrightarrow> tr' = tr)
       \<and> (k \<in> seen \<longrightarrow> k \<in> seen')"
proof (induction ds arbitrary: t seen i tr)
  case Nil
  then show ?case by simp
next
  case (Cons d ds)
  obtain t1 seen1 where r1: "reconcile1 now (order i) d (t, seen) = (t1, seen1)"
    by (cases "reconcile1 now (order i) d (t, seen)")
  note c = reconcile1_cases [OF r1]
  from c have pt: "positionThresh t1 = positionThresh t"
    and s1: "seen1 = insert (entityKey t d) seen" by simp_all
  from Cons.prems(5) r1 have rest: "reconcile now order (Suc i) ds (t1, seen1) = (t', seen')"
    by simp
  have S1: "\<forall>e \<in> S. \<forall>d \<in> set ds. entityKey t1 d \<noteq> k \<longrightarrow> \<not> isMovedMatch t1 e d"
    using Cons.prems(1) by (simp add: isMovedMatch_cong [OF pt] entityKey_fun_cong [OF pt])
  have S2: "\<forall>d \<in> set ds. entityKey t1 d = k \<longrightarrow> d \<in> S"
    using Cons.prems(2) by (simp add: entityKey_fun_cong [OF pt])
  have ke: "entityKey t1 ` set ds = entityKey t ` set ds"
    by (simp add: entityKey_fun_cong [OF pt])
  show ?case
  proof (cases "entityKey t d = k")
    case True
    define tr1 where "tr1 = tr\<lparr>LastSeen := now, Entity := d\<rparr>"
    from c True Cons.prems(3) have e1: "entities t1 k = Some tr1"
      by (simp add: tr1_def)
    from True Cons.prems(2) have "Entity tr1 \<in> S" by (simp add: tr1_def)
    from Cons.IH [OF S1 S2 e1 this rest] obtain tr' where
      w: "entities t' k = Some tr'" "ClickCount tr' = ClickCount tr1" "FirstSeen tr' = FirstSeen tr1"
        "k \<in> entityKey t1 ` set ds \<longrightarrow> LastSeen tr' = now \<and> k \<in> seen'"
        "k \<notin> entityKey t1 ` set ds \<longrightarrow> tr' = tr1" "k \<in> seen1 \<longrightarrow> k \<in> seen'"
      by blast
    from s1 True have "k \<in> seen1" by simp
    with w(6) have ks: "k \<in> seen'" by simp
    have "LastSeen tr' = now"
    proof (cases "k \<in> entityKey t1 ` set ds")
      case True
      with w(4) show ?thesis by simp
    next
      case False
      with w(5) show ?thesis by (simp add: tr1_def)
    qed
    with w(1,2,3) ks True show ?thesis
      by (simp add: tr1_def)
  next
    case False
    have "\<not> isMovedMatch t (Entity tr) d"
      using Cons.prems(1,4) False by simp
    with c False Cons.prems(3) have e1: "entities t1 k = Some tr"
      by (metis option.inject)
    from Cons.IH [OF S1 S2 e1 Cons.prems(4) rest] obtain tr' where
      w: "entities t' k = Some tr'" "ClickCount tr' = ClickCount tr" "FirstSeen tr' = FirstSeen tr"
        "k \<in> entityKey t1 ` set ds \<longrightarrow> LastSeen tr' = now \<and> k \<in> seen'"
        "k \<notin> entityKey t1 ` set ds \<longrightarrow> tr' = tr" "k \<in> seen1 \<longrightarrow> k \<in> seen'"
      by blast
    from w s1 False show ?thesis
      unfolding ke by auto
  qed
qed

lemma expire_at:
  "entities (expire now seen t) k =
     (case entities t k of
        None \<Rightarrow> None
      | Some tracked \<Rightarrow> if k \<notin> seen \<and> now - LastSeen tracked > ttl t then None else Some tracked)"
  by (simp add: expire_def)

text \<open>Unfolding rules that evaluate \<open>Update\<close> on the concrete trackers.\<close>

lemmas update_eval =
  Update_def reconcile1_def expire_def isMovedMatch_def GetClickCount_def
  trackerOne_def trackerOneBlack_def trackedOld_def detOld_def detUp_def detHere_def detAbove_def
  detFar_def orderOne_def tracker_eval

text \<open>
  C5. The tracker has the default quantization unit and holds, under its key, an entity of
  priority \<open>P\<close> at \<open>(100, 500)\<close>; the detection has priority \<open>P\<close> and position
  \<open>(105, 350)\<close>; its key is not tracked yet and no other tracked entity passes the test of
  \<open>findMovedEntity\<close> (both hold when the entity is the only one tracked); the run over the
  map visits the entity's key. Then after \<open>Update\<close> with this one detection the new key
  holds the detection with the old click count and first-seen time and the time of the
  call as last-seen, the old key is gone from the entities and from the blacklist, the two
  keys differ, and the new key is blacklisted with the old key's stamp if the old key was
  blacklisted.
\<close>

theorem moved_entity_inherits:
  assumes thresh: "positionThresh t = 20"
    and old: "entities t (entityKey t (Entity tr)) = Some tr"
    and pos: "Position (Entity tr) = \<lparr>X = 100, Y = 500\<rparr>"
    and d: "Priority d = Priority (Entity tr)" "Position d = \<lparr>X = 105, Y = 350\<rparr>"
    and fresh: "entities t (entityKey t d) = None"
    and only: "\<forall>k' tr'. entities t k' = Some tr' \<and> k' \<noteq> entityKey t (Entity tr)
                 \<longrightarrow> \<not> isMovedMatch t (Entity tr') d"
    and ord: "entityKey t (Entity tr) \<in> set (order 0)"
  shows "entities (Update t now order [d]) (entityKey t d)
           = Some \<lparr>Entity = d, ClickCount = ClickCount tr, LastSeen = now, FirstSeen = FirstSeen tr\<rparr>
       \<and> entities (Update t now order [d]) (entityKey t (Entity tr)) = None
       \<and> entityKey t d \<noteq> entityKey t (Entity tr)
       \<and> blacklist (Update t now order [d]) (entityKey t (Entity tr)) = None
       \<and> blacklist (Update t now order [d]) (entityKey t d)
           = (case blacklist t (entityKey t (Entity tr)) of
                Some stamp \<Rightarrow> Some stamp
              | None \<Rightarrow> blacklist t (entityKey t d))
       \<and> GetClickCount (Update t now order [d]) d = ClickCount tr"
proof -
  define oldKey where "oldKey = entityKey t (Entity tr)"
  define newKey where "newKey = entityKey t d"
  have ok: "oldKey = Itoa (Priority d) @ ''_100_500''"
    unfolding oldKey_def using thresh pos d(1) by (simp add: entityKey_at_100_500)
  have nk: "newKey = Itoa (Priority d) @ ''_100_340''"
    unfolding newKey_def using thresh d(2) by (simp add: entityKey_at_105_350)
  have ne: "newKey \<noteq> oldKey" "oldKey \<noteq> ''''"
    by (simp_all add: ok nk)
  have mm: "isMovedMatch t (Entity tr) d"
    using pos d thresh by (simp add: isMovedMatch_def)
  have fm: "findMovedEntity t d (order 0) = oldKey"
    using findMovedEntity_unique [OF old mm only ord] by (simp add: oldKey_def)
  define t' where "t' = Update t now order [d]"
  have pt: "positionThresh t' = positionThresh t"
    unfolding t'_def Update_def reconcile.simps reconcile1_def expire_def
    using fresh fm ne old
    by (simp add: Let_def newKey_def [symmetric] oldKey_def [symmetric] split: option.splits)
  have e1: "entities t' newKey
           = Some \<lparr>Entity = d, ClickCount = ClickCount tr, LastSeen = now, FirstSeen = FirstSeen tr\<rparr>"
    unfolding t'_def Update_def reconcile.simps reconcile1_def expire_def
    using fresh fm ne old
    by (simp add: Let_def newKey_def [symmetric] oldKey_def [symmetric] split: option.splits)
  have e2: "entities t' oldKey = None"
    unfolding t'_def Update_def reconcile.simps reconcile1_def expire_def
    using fresh fm ne old
    by (simp add: Let_def newKey_def [symmetric] oldKey_def [symmetric] split: option.splits)
  have b1: "blacklist t' oldKey = None"
    unfolding t'_def Update_def reconcile.simps reconcile1_def expire_def
    using fresh fm ne old
    by (simp add: Let_def newKey_def [symmetric] oldKey_def [symmetric] split: option.splits)
  have b2: "blacklist t' newKey = (case blacklist t oldKey of Some stamp \<Rightarrow> Some stamp | None \<Rightarrow> blacklist t newKey)"
    unfolding t'_def Update_def reconcile.simps reconcile1_def expire_def
    using fresh fm ne old
    by (simp add: Let_def newKey_def [symmetric] oldKey_def [symmetric] split: option.splits)
  have g: "GetClickCount t' d = ClickCount tr"
    using e1 by (simp add: GetClickCount_def entityKey_cong [OF pt] newKey_def [symmetric])
  from e1 e2 ne(1) b1 b2 g show ?thesis
    unfolding t'_def oldKey_def newKey_def by blast
qed

theorem moved_entity_inherits_witness:
  "positionThresh trackerOneBlack = 20
   \<and> entities trackerOneBlack (entityKey trackerOneBlack (Entity trackedOld)) = Some trackedOld
   \<and> Position (Entity trackedOld) = \<lparr>X = 100, Y = 500\<rparr>
   \<and> Priority detUp = Priority (Entity trackedOld) \<and> Position detUp = \<lparr>X = 105, Y = 350\<rparr>
   \<and> entities trackerOneBlack (entityKey trackerOneBlack detUp) = None
   \<and> entityKey trackerOneBlack (Entity trackedOld) \<in> set (orderOne 0)
   \<and> entityKey trackerOneBlack (Entity trackedOld) = ''5_100_500''
   \<and> entityKey trackerOneBlack detUp = ''5_100_340''
   \<and> entities (Update trackerOneBlack 50 orderOne [detUp]) ''5_100_340''
         = Some \<lparr>Entity = detUp, ClickCount = 3, LastSeen = 50, FirstSeen = 10\<rparr>
   \<and> entities (Update trackerOneBlack 50 orderOne [detUp]) ''5_100_500'' = None
   \<and> blacklist (Update trackerOneBlack 50 orderOne [detUp]) ''5_100_500'' = None
   \<and> blacklist (Update trackerOneBlack 50 orderOne [detUp]) ''5_100_340'' = Some 30
   \<and> GetClickCount (Update trackerOneBlack 50 orderOne [detUp]) detUp = 3"
proof -
  have k: "entityKey trackerOneBlack (Entity trackedOld) = ''5_100_500''"
    "entityKey trackerOneBlack detUp = ''5_100_340''"
    by (simp_all add: update_eval)
  have h: "positionThresh trackerOneBlack = 20"
    "entities trackerOneBlack (entityKey trackerOneBlack (Entity trackedOld)) = Some trackedOld"
    "Position (Entity trackedOld) = \<lparr>X = 100, Y = 500\<rparr>"
    "Priority detUp = Priority (Entity trackedOld)" "Position detUp = \<lparr>X = 105, Y = 350\<rparr>"
    "entities trackerOneBlack (entityKey trackerOneBlack detUp) = None"
    unfolding k by (simp_all add: update_eval)
  have only: "\<forall>k' tr'. entities trackerOneBlack k' = Some tr' \<and> k' \<noteq> entityKey trackerOneBlack (Entity trackedOld)
                 \<longrightarrow> \<not> isMovedMatch trackerOneBlack (Entity tr') detUp"
    unfolding k by (simp add: trackerOneBlack_def trackerOne_def)
  have ord: "entityKey trackerOneBlack (Entity trackedOld) \<in> set (orderOne 0)"
    unfolding k by (simp add: orderOne_def)
  have v: "ClickCount trackedOld = 3" "FirstSeen trackedOld = 10"
    "blacklist trackerOneBlack ''5_100_500'' = Some 30"
    by (simp_all add: update_eval)
  note T = moved_entity_inherits [where t = trackerOneBlack and tr = trackedOld and d = detUp
      and order = orderOne and now = 50, OF h only ord, unfolded k v]
  from T have c: "entities (Update trackerOneBlack 50 orderOne [detUp]) ''5_100_340''
         = Some \<lparr>Entity = detUp, ClickCount = 3, LastSeen = 50, FirstSeen = 10\<rparr>"
    "entities (Update trackerOneBlack 50 orderOne [detUp]) ''5_100_500'' = None"
    "blacklist (Update trackerOneBlack 50 orderOne [detUp]) ''5_100_500'' = None"
    "blacklist (Update trackerOneBlack 50 orderOne [detUp]) ''5_100_340'' = Some 30"
    "GetClickCount (Update trackerOneBlack 50 orderOne [detUp]) detUp = 3"
    by simp_all
  from h ord k c show ?thesis by simp
qed

text \<open>
  C3, as the code has it. The tracker has a quantization unit other than 0. For an entity
  whose key is not among the keys of the detections:
  if the time since it was last seen exceeds the TTL it is removed; if it is still tracked
  after the call it is unchanged; and if no detection passes the test of
  \<open>findMovedEntity\<close> against it, it is removed exactly when the TTL is exceeded. For an
  entity whose key is among the keys of the detections: if no detection of another key
  passes that test against it or against a detection of its key, it is tracked after the
  call, whatever the TTL, with its click count and first-seen time and with the time of the
  call as last-seen.
\<close>

theorem Update_expiry:
  assumes unit: "positionThresh t \<noteq> 0"
  shows "(\<forall>k tr. entities t k = Some tr \<and> k \<notin> entityKey t ` set detected \<longrightarrow>
       (now - LastSeen tr > ttl t \<longrightarrow> entities (Update t now order detected) k = None)
     \<and> (entities (Update t now order detected) k \<noteq> None \<longrightarrow>
          entities (Update t now order detected) k = Some tr)
     \<and> ((\<forall>d \<in> set detected. \<not> isMovedMatch t (Entity tr) d) \<longrightarrow>
          (entities (Update t now order detected) k = None \<longleftrightarrow> now - LastSeen tr > ttl t)))
   \<and> (\<forall>k tr. entities t k = Some tr \<and> k \<in> entityKey t ` set detected
         \<and> (\<forall>d \<in> set detected. entityKey t d \<noteq> k \<longrightarrow>
               \<not> isMovedMatch t (Entity tr) d
               \<and> (\<forall>e \<in> set detected. entityKey t e = k \<longrightarrow> \<not> isMovedMatch t e d)) \<longrightarrow>
        (\<exists>tr'. entities (Update t now order detected) k = Some tr'
               \<and> ClickCount tr' = ClickCount tr \<and> FirstSeen tr' = FirstSeen tr \<and> LastSeen tr' = now))"
proof -
  have p1: "(now - LastSeen tr > ttl t \<longrightarrow> entities (Update t now order detected) k = None)
     \<and> (entities (Update t now order detected) k \<noteq> None \<longrightarrow>
          entities (Update t now order detected) k = Some tr)
     \<and> ((\<forall>d \<in> set detected. \<not> isMovedMatch t (Entity tr) d) \<longrightarrow>
          (entities (Update t now order detected) k = None \<longleftrightarrow> now - LastSeen tr > ttl t))"
    if a: "entities t k = Some tr \<and> k \<notin> entityKey t ` set detected" for k tr
  proof -
    obtain t1 seen1 where r: "reconcile now order 0 detected (t, {}) = (t1, seen1)"
      by (cases "reconcile now order 0 detected (t, {})")
    have u: "Update t now order detected = expire now seen1 t1"
      by (simp add: Update_def r)
    from a reconcile_other_key [OF _ r, of k]
    have o: "ttl t1 = ttl t" "k \<notin> seen1"
      "entities t1 k = Some tr
       \<or> (entities t1 k = None \<and> (\<exists>d. d \<in> set detected \<and> isMovedMatch t (Entity tr) d))"
      by auto
    from o(3) show ?thesis
    proof
      assume "entities t1 k = Some tr"
      with o(1,2) show ?thesis by (simp add: u expire_at)
    next
      assume "entities t1 k = None \<and> (\<exists>d. d \<in> set detected \<and> isMovedMatch t (Entity tr) d)"
      then show ?thesis by (auto simp: u expire_at)
    qed
  qed
  have p2: "\<exists>tr'. entities (Update t now order detected) k = Some tr'
               \<and> ClickCount tr' = ClickCount tr \<and> FirstSeen tr' = FirstSeen tr \<and> LastSeen tr' = now"
    if a: "entities t k = Some tr \<and> k \<in> entityKey t ` set detected
         \<and> (\<forall>d \<in> set detected. entityKey t d \<noteq> k \<longrightarrow>
               \<not> isMovedMatch t (Entity tr) d
               \<and> (\<forall>e \<in> set detected. entityKey t e = k \<longrightarrow> \<not> isMovedMatch t e d))" for k tr
  proof -
    obtain t1 seen1 where r: "reconcile now order 0 detected (t, {}) = (t1, seen1)"
      by (cases "reconcile now order 0 detected (t, {})")
    have u: "Update t now order detected = expire now seen1 t1"
      by (simp add: Update_def r)
    define S where "S = insert (Entity tr) {e \<in> set detected. entityKey t e = k}"
    have S1: "\<forall>e \<in> S. \<forall>d \<in> set detected. entityKey t d \<noteq> k \<longrightarrow> \<not> isMovedMatch t e d"
      using a by (auto simp: S_def)
    have S2: "\<forall>d \<in> set detected. entityKey t d = k \<longrightarrow> d \<in> S"
      by (simp add: S_def)
    have S3: "Entity tr \<in> S" by (simp add: S_def)
    from a have e: "entities t k = Some tr" and kin: "k \<in> entityKey t ` set detected" by simp_all
    from reconcile_safe_key [OF S1 S2 e S3 r] kin obtain tr' where
      w: "entities t1 k = Some tr'" "ClickCount tr' = ClickCount tr" "FirstSeen tr' = FirstSeen tr"
        "LastSeen tr' = now" "k \<in> seen1"
      by blast
    from w(1,5) have "entities (Update t now order detected) k = Some tr'"
      by (simp add: u expire_at)
    with w(2,3,4) show ?thesis by blast
  qed
  show ?thesis
  proof (intro conjI allI)
    fix k tr
    show "entities t k = Some tr \<and> k \<notin> entityKey t ` set detected \<longrightarrow>
       (now - LastSeen tr > ttl t \<longrightarrow> entities (Update t now order detected) k = None)
     \<and> (entities (Update t now order detected) k \<noteq> None \<longrightarrow>
          entities (Update t now order detected) k = Some tr)
     \<and> ((\<forall>d \<in> set detected. \<not> isMovedMatch t (Entity tr) d) \<longrightarrow>
          (entities (Update t now order detected) k = None \<longleftrightarrow> now - LastSeen tr > ttl t))"
      by (rule impI) (rule p1)
  next
    fix k tr
    show "entities t k = Some tr \<and> k \<in> entityKey t ` set detected
         \<and> (\<forall>d \<in> set detected. entityKey t d \<noteq> k \<longrightarrow>
               \<not> isMovedMatch t (Entity tr) d
               \<and> (\<forall>e \<in> set detected. entityKey t e = k \<longrightarrow> \<not> isMovedMatch t e d)) \<longrightarrow>
        (\<exists>tr'. entities (Update t now order detected) k = Some tr'
               \<and> ClickCount tr' = ClickCount tr \<and> FirstSeen tr' = FirstSeen tr \<and> LastSeen tr' = now)"
      by (rule impI) (rule p2)
  qed
qed

theorem Update_expiry_witness:
  "positionThresh trackerOne \<noteq> 0
   \<and> entities trackerOne ''5_100_500'' = Some trackedOld
   \<and> ''5_100_500'' \<notin> entityKey trackerOne ` set [detFar]
   \<and> \<not> isMovedMatch trackerOne (Entity trackedOld) detFar
   \<and> \<not> 50 - LastSeen trackedOld > ttl trackerOne
   \<and> entities (Update trackerOne 50 orderOne [detFar]) ''5_100_500'' = Some trackedOld
   \<and> 5000000000 - LastSeen trackedOld > ttl trackerOne
   \<and> entities (Update trackerOne 5000000000 orderOne [detFar]) ''5_100_500'' = None
   \<and> ''5_100_500'' \<in> entityKey trackerOne ` set [detHere, detFar]
   \<and> entityKey trackerOne detHere = ''5_100_500''
   \<and> entityKey trackerOne detFar \<noteq> ''5_100_500''
   \<and> \<not> isMovedMatch trackerOne detHere detFar
   \<and> (\<exists>tr'. entities (Update trackerOne 5000000000 orderOne [detHere, detFar]) ''5_100_500'' = Some tr'
          \<and> ClickCount tr' = ClickCount trackedOld \<and> FirstSeen tr' = FirstSeen trackedOld
          \<and> LastSeen tr' = 5000000000)"
proof -
  have u: "positionThresh trackerOne \<noteq> 0"
    by (simp add: update_eval)
  have e: "entities trackerOne ''5_100_500'' = Some trackedOld"
    by (simp add: update_eval)
  have a: "''5_100_500'' \<notin> entityKey trackerOne ` set [detFar]"
    "\<forall>d \<in> set [detFar]. \<not> isMovedMatch trackerOne (Entity trackedOld) d"
    "\<not> 50 - LastSeen trackedOld > ttl trackerOne"
    "5000000000 - LastSeen trackedOld > ttl trackerOne"
    by (simp_all add: update_eval)
  have b: "''5_100_500'' \<in> entityKey trackerOne ` set [detHere, detFar]"
    "\<forall>d \<in> set [detHere, detFar]. entityKey trackerOne d \<noteq> ''5_100_500'' \<longrightarrow>
         \<not> isMovedMatch trackerOne (Entity trackedOld) d
         \<and> (\<forall>e \<in> set [detHere, detFar]. entityKey trackerOne e = ''5_100_500'' \<longrightarrow> \<not> isMovedMatch trackerOne e d)"
    by (simp_all add: update_eval)
  from Update_expiry [OF u, of "[detFar]" 50 orderOne] e a(1,2,3)
  have c1: "entities (Update trackerOne 50 orderOne [detFar]) ''5_100_500'' = Some trackedOld"
    by blast
  from Update_expiry [OF u, of "[detFar]" 5000000000 orderOne] e a(1,4)
  have c2: "entities (Update trackerOne 5000000000 orderOne [detFar]) ''5_100_500'' = None"
    by blast
  from Update_expiry [OF u, of "[detHere, detFar]" 5000000000 orderOne] e b
  have c3: "\<exists>tr'. entities (Update trackerOne 5000000000 orderOne [detHere, detFar]) ''5_100_500'' = Some tr'
          \<and> ClickCount tr' = ClickCount trackedOld \<and> FirstSeen tr' = FirstSeen trackedOld
          \<and> LastSeen tr' = 5000000000"
    by blast
  have x: "\<not> isMovedMatch trackerOne (Entity trackedOld) detFar"
    "entityKey trackerOne detHere = ''5_100_500''"
    "entityKey trackerOne detFar \<noteq> ''5_100_500''"
    "\<not> isMovedMatch trackerOne detHere detFar"
    by (simp_all add: update_eval)
  from u e a(1,3,4) b(1) x c1 c2 c3 show ?thesis by blast
qed

text \<open>
  The claim as stated fails in both halves, through the reconciliation of moved entities.
  The entity at \<open>(100, 500)\<close>, last seen 10 ns ago, is removed by a call whose only
  detection is at \<open>(105, 350)\<close>: its state moves to the new key. And with the detections
  \<open>(101, 502)\<close> and \<open>(100, 400)\<close> the entity's key is among the detections' keys, yet
  the second detection takes the entity over and the key is removed.
\<close>

theorem Update_expiry_counterexample:
  "entities trackerOne ''5_100_500'' = Some trackedOld
   \<and> ''5_100_500'' \<notin> entityKey trackerOne ` set [detUp]
   \<and> \<not> 50 - LastSeen trackedOld > ttl trackerOne
   \<and> entities (Update trackerOne 50 orderOne [detUp]) ''5_100_500'' = None
   \<and> ''5_100_500'' \<in> entityKey trackerOne ` set [detHere, detAbove]
   \<and> entities (Update trackerOne 50 orderOne [detHere, detAbove]) ''5_100_500'' = None"
  by (simp add: update_eval)

section \<open>Retries of the search-open step\<close>

lemma searchOpenTargets_None:
  "\<forall>target \<in> set ts. \<not> snd (snd (FindTemplate screenImg (Image_tgt target) DefaultTolerance)) \<Longrightarrow>
     searchOpenTargets b screenImg ts = None"
  by (induction ts) (auto split: prod.splits)

lemma handleSearchOpenState_failed:
  assumes "failedTick b captured"
  shows "snd (handleSearchOpenState b captured) =
           (if SearchMaxRetries \<le> searchRetryCount b + 1
            then b\<lparr>searchRetryCount := 0, State := StateAutoDetect\<rparr>
            else b\<lparr>searchRetryCount := searchRetryCount b + 1\<rparr>)"
proof (cases captured)
  case (Inl err)
  with assms show ?thesis by (simp add: failedTick_def)
next
  case (Inr screenImg)
  with assms have "searchOpenTargets b screenImg (targetsChannelOpen b) = None"
    by (intro searchOpenTargets_None) (simp add: failedTick_def)
  with Inr show ?thesis
    by (simp add: handleSearchOpenState_def Let_def)
qed

lemma failedTick_cong:
  "targetsChannelOpen b' = targetsChannelOpen b \<Longrightarrow> failedTick b' captured = failedTick b captured"
  by (cases captured) (simp_all add: failedTick_def)

lemma searchOpenTicks_below:
  "State b = StateSearchOpen \<Longrightarrow> \<forall>captured \<in> set caps. failedTick b captured \<Longrightarrow>
     searchRetryCount b + length caps < SearchMaxRetries \<Longrightarrow>
     searchOpenTicks b caps = b\<lparr>searchRetryCount := searchRetryCount b + length caps\<rparr>"
proof (induction caps arbitrary: b)
  case Nil
  then show ?case by simp
next
  case (Cons captured caps)
  define b1 where "b1 = b\<lparr>searchRetryCount := searchRetryCount b + 1\<rparr>"
  from Cons.prems have f: "failedTick b captured" and lt: "\<not> SearchMaxRetries \<le> searchRetryCount b + 1"
    by simp_all
  from handleSearchOpenState_failed [OF f] lt have h: "snd (handleSearchOpenState b captured) = b1"
    by (simp add: b1_def)
  have s1: "State b1 = StateSearchOpen" using Cons.prems(1) by (simp add: b1_def)
  have f1: "\<forall>captured \<in> set caps. failedTick b1 captured"
    using Cons.prems(2) failedTick_cong [of b1 b] by (simp add: b1_def)
  have l1: "searchRetryCount b1 + length caps < SearchMaxRetries"
    using Cons.prems(3) by (simp add: b1_def)
  from Cons.IH [OF s1 f1 l1] Cons.prems(1) h show ?case
    by (simp add: b1_def)
qed

lemma searchOpenTicks_snoc:
  "State (searchOpenTicks b caps) = StateSearchOpen \<Longrightarrow>
     searchOpenTicks b (caps @ [captured]) = snd (handleSearchOpenState (searchOpenTicks b caps) captured)"
  by (induction caps arbitrary: b) (auto split: if_splits)

text \<open>
  C6. The bot is in \<open>StateSearchOpen\<close> with the retry counter at 0, as it is when the
  state is entered, and every tick is a failed one. Then after each of the first
  \<open>SearchMaxRetries - 1\<close> ticks the state is still \<open>StateSearchOpen\<close> and the counter
  equals the number of ticks, and after exactly \<open>SearchMaxRetries\<close> ticks the state is
  \<open>StateAutoDetect\<close> and the counter is 0.
\<close>

theorem searchOpen_falls_back:
  assumes st: "State b = StateSearchOpen" and zero: "searchRetryCount b = 0"
    and failed: "\<forall>captured \<in> set caps. failedTick b captured"
    and len: "length caps = SearchMaxRetries"
  shows "(\<forall>n < SearchMaxRetries.
            State (searchOpenTicks b (take n caps)) = StateSearchOpen
            \<and> searchRetryCount (searchOpenTicks b (take n caps)) = n)
       \<and> State (searchOpenTicks b caps) = StateAutoDetect
       \<and> searchRetryCount (searchOpenTicks b caps) = 0"
proof -
  have early: "searchOpenTicks b (take n caps) = b\<lparr>searchRetryCount := n\<rparr>" if "n < SearchMaxRetries" for n
  proof -
    have "\<forall>captured \<in> set (take n caps). failedTick b captured"
      using failed by (meson in_set_takeD)
    moreover have "searchRetryCount b + length (take n caps) < SearchMaxRetries"
      using that len zero by simp
    ultimately have "searchOpenTicks b (take n caps)
        = b\<lparr>searchRetryCount := searchRetryCount b + length (take n caps)\<rparr>"
      using st by (intro searchOpenTicks_below)
    with that len zero show ?thesis by simp
  qed
  have pos: "0 < SearchMaxRetries" by (simp add: SearchMaxRetries_def)
  define m where "m = SearchMaxRetries - 1"
  have m: "m < SearchMaxRetries" "Suc m = SearchMaxRetries" using pos by (simp_all add: m_def)
  have ne: "caps \<noteq> []" using len pos by auto
  have split: "caps = take m caps @ [last caps]"
    using ne len m by (metis butlast_conv_take diff_Suc_1 snoc_eq_iff_butlast)
  define b2 where "b2 = b\<lparr>searchRetryCount := m\<rparr>"
  have e2: "searchOpenTicks b (take m caps) = b2"
    using early [OF m(1)] by (simp add: b2_def)
  have s2: "State b2 = StateSearchOpen" using st by (simp add: b2_def)
  have "failedTick b (last caps)" using failed ne by simp
  then have f2: "failedTick b2 (last caps)"
    using failedTick_cong [of b2 b] by (simp add: b2_def)
  have "searchOpenTicks b caps = searchOpenTicks b (take m caps @ [last caps])"
    using split by simp
  also have "\<dots> = snd (handleSearchOpenState b2 (last caps))"
    using searchOpenTicks_snoc [of b "take m caps" "last caps"] e2 s2 by simp
  also have "\<dots> = b2\<lparr>searchRetryCount := 0, State := StateAutoDetect\<rparr>"
    using handleSearchOpenState_failed [OF f2] m(2) by (simp add: b2_def)
  finally have fin: "searchOpenTicks b caps = b2\<lparr>searchRetryCount := 0, State := StateAutoDetect\<rparr>" .
  show ?thesis
    using early st fin by simp
qed

text \<open>Unfolding rules that evaluate the handler on the concrete bot.\<close>

lemmas bot_eval =
  handleSearchOpenState_def failedTick_def FindTemplate_def DefaultTolerance_def SearchMaxRetries_def
  SearchRetryInterval_def botOpen_def capturesBlack_def tmplWhite_def frameB_def matcher_eval

theorem searchOpen_falls_back_witness:
  "State botOpen = StateSearchOpen \<and> searchRetryCount botOpen = 0
   \<and> capturesBlack = [Inr frameB, Inr frameB, Inr frameB] \<and> failedTick botOpen (Inr frameB)
   \<and> length capturesBlack = SearchMaxRetries
   \<and> State (searchOpenTicks botOpen (take 2 capturesBlack)) = StateSearchOpen
   \<and> searchRetryCount (searchOpenTicks botOpen (take 2 capturesBlack)) = 2
   \<and> State (searchOpenTicks botOpen capturesBlack) = StateAutoDetect
   \<and> searchRetryCount (searchOpenTicks botOpen capturesBlack) = 0"
proof -
  have h: "State botOpen = StateSearchOpen" "searchRetryCount botOpen = 0"
    "\<forall>captured \<in> set capturesBlack. failedTick botOpen captured"
    "length capturesBlack = SearchMaxRetries"
    by (simp_all add: bot_eval)
  have two: "(2::nat) < SearchMaxRetries" by (simp add: SearchMaxRetries_def)
  have f: "capturesBlack = [Inr frameB, Inr frameB, Inr frameB]" "failedTick botOpen (Inr frameB)"
    by (simp_all add: bot_eval)
  from searchOpen_falls_back [OF h] two h(1,2,4) f show ?thesis by blast
qed

end
